theory Spec2Isabelle
  imports Complex_Main
begin

section \<open>CAP-ROC: the capacity calculator of \<^verbatim>\<open>src/cap_roc_tool.py\<close>\<close>

text \<open>
  The embedding follows the four functions of the source: \<^verbatim>\<open>poisson_cdf\<close>,
  \<^verbatim>\<open>poisson_overload_prob\<close>, \<^verbatim>\<open>lambda_max_poisson\<close> and \<^verbatim>\<open>cap_roc\<close>.

  Numbers. A Python \<^verbatim>\<open>float\<close> is a \<^typ>\<open>real\<close>, and \<open>+\<close>, \<open>-\<close>, \<open>*\<close>, \<open>/\<close> are exact:
  the relative rounding error \<open>2\<^sup>-\<^sup>5\<^sup>3\<close> of an operation on doubles is not followed. What
  is followed is the underflow of \<^verbatim>\<open>math.exp\<close>, which changes what \<^verbatim>\<open>poisson_cdf\<close>
  returns for a large \<open>lam\<close>: see \<open>math_exp\<close> below. The value \<^verbatim>\<open>float("nan")\<close> that
  \<^verbatim>\<open>cap_roc\<close> stores in its result is kept too, as the constructor \<open>NaN\<close> of the type
  \<open>pyfloat\<close> of the fields that can hold it.

  Python does not enforce the annotation \<^verbatim>\<open>k: int\<close>: the capacity argument of the
  Poisson functions is a \<open>pynum\<close>, an \<^verbatim>\<open>int\<close> or a \<^verbatim>\<open>float\<close>, and the model says what
  the code does with each.
\<close>

subsection \<open>Values and errors\<close>

datatype error = ValueError string | TypeError

datatype pynum = PyInt int | PyFloat real

fun num_val :: "pynum \<Rightarrow> real" where
  "num_val (PyInt n) = of_int n"
| "num_val (PyFloat x) = x"

datatype pyfloat = Num real | NaN

subsection \<open>Rounding and \<^verbatim>\<open>math.exp\<close>\<close>

text \<open>
  \<^verbatim>\<open>int(round(C))\<close>: Python's built-in \<^verbatim>\<open>round\<close> with one argument returns the nearest
  integer and, of two equally near, the even one.
\<close>

definition py_round :: "real \<Rightarrow> int" where
  "py_round x =
     (let f = \<lfloor>x\<rfloor>; d = x - of_int f in
      if d < 1 / 2 then f
      else if d > 1 / 2 then f + 1
      else if even f then f else f + 1)"

text \<open>
  \<^verbatim>\<open>math.exp(x)\<close> is the double nearest to \<open>e\<^sup>x\<close>. Down to \<open>2\<^sup>-\<^sup>1\<^sup>0\<^sup>2\<^sup>2\<close>, the least normal
  double, the model takes \<open>e\<^sup>x\<close> itself. Below it the doubles are the multiples of
  \<open>2\<^sup>-\<^sup>1\<^sup>0\<^sup>7\<^sup>4\<close>, and the nearest one is taken, a tie going to the even multiple, which
  is the rule of \<open>py_round\<close>: the result is \<^verbatim>\<open>0.0\<close> once \<open>e\<^sup>x\<close> is below \<open>2\<^sup>-\<^sup>1\<^sup>0\<^sup>7\<^sup>5\<close>, that
  is for \<open>x\<close> below about \<open>-745.13\<close>, and has lost its relative precision from about
  \<open>-708.4\<close> on. Python raises nothing on underflow. Overflow, for \<open>x\<close> above about
  \<open>709.78\<close>, is not modelled: \<^verbatim>\<open>poisson_cdf\<close> calls \<^verbatim>\<open>math.exp\<close> on \<open>-lam\<close> with
  \<open>lam \<ge> 0\<close> only. The products and sums that follow are exact in the model; in the
  code the first few products of a subnormal term are rounded to multiples of
  \<open>2\<^sup>-\<^sup>1\<^sup>0\<^sup>7\<^sup>4\<close> as well, a relative error of at most \<open>1 / (2 lam)\<close> that shrinks with
  every pass.
\<close>

definition math_exp :: "real \<Rightarrow> real" where
  "math_exp x =
     (let e = exp x in
      if e < 1 / 2 ^ 1022 then of_int (py_round (e * 2 ^ 1074)) / 2 ^ 1074 else e)"

subsection \<open>\<^verbatim>\<open>poisson_cdf\<close>\<close>

text \<open>
  One pass of the body of \<^verbatim>\<open>for i in range(1, k + 1)\<close>: the pair is
  \<open>(term, tot)\<close>, the source's \<^verbatim>\<open>term\<close> and \<^verbatim>\<open>total\<close>. The index is at least 1, so the
  division never fails.
\<close>

fun cdf_step :: "real \<Rightarrow> real \<times> real \<Rightarrow> nat \<Rightarrow> real \<times> real" where
  "cdf_step lam (term, tot) i =
     (let term' = term * (lam / real i) in (term', tot + term'))"

definition cdf_loop :: "nat \<Rightarrow> real \<Rightarrow> real \<times> real" where
  "cdf_loop k lam =
     (let term = math_exp (- lam) in foldl (cdf_step lam) (term, term) [1 ..< k + 1])"

text \<open>
  The checks come in the source's order: \<open>k < 0\<close> returns before \<open>lam\<close> is looked at.
  \<^verbatim>\<open>range(1, k + 1)\<close> raises \<^verbatim>\<open>TypeError\<close> when \<open>k\<close> is a float.
\<close>

definition poisson_cdf :: "pynum \<Rightarrow> real \<Rightarrow> error + real" where
  "poisson_cdf k lam =
     (if num_val k < 0 then Inr 0
      else if lam < 0 then Inl (ValueError ''lam must be >= 0'')
      else (case k of
              PyFloat x \<Rightarrow> Inl TypeError
            | PyInt n \<Rightarrow>
                (let tot = snd (cdf_loop (nat n) lam) in
                 if tot < 0 then Inr 0
                 else if tot > 1 then Inr 1
                 else Inr tot)))"

subsection \<open>\<^verbatim>\<open>poisson_overload_prob\<close>\<close>

definition poisson_overload_prob :: "real \<Rightarrow> pynum \<Rightarrow> error + real" where
  "poisson_overload_prob lam C =
     (case poisson_cdf C lam of Inl e \<Rightarrow> Inl e | Inr c \<Rightarrow> Inr (1 - c))"

subsection \<open>\<^verbatim>\<open>lambda_max_poisson\<close>\<close>

text \<open>
  The first loop, \<^verbatim>\<open>for _ in range(80)\<close>, doubles \<open>hi\<close>; the counter is the number of
  passes left. It returns the value of \<open>hi\<close> at the loop's exit.
\<close>

fun expand_hi :: "nat \<Rightarrow> real \<Rightarrow> pynum \<Rightarrow> real \<Rightarrow> error + real" where
  "expand_hi 0 delta C hi = Inr hi"
| "expand_hi (Suc n) delta C hi =
     (case poisson_overload_prob hi C of
        Inl e \<Rightarrow> Inl e
      | Inr pr \<Rightarrow>
          if pr > delta then Inr hi
          else (let hi' = hi * 2 in
                if hi' > 1000000 then Inr hi' else expand_hi n delta C hi'))"

text \<open>The second loop, the binary search; it returns the value of \<open>lo\<close> at the exit.\<close>

fun bisect :: "nat \<Rightarrow> real \<Rightarrow> pynum \<Rightarrow> real \<Rightarrow> real \<Rightarrow> real \<Rightarrow> error + real" where
  "bisect 0 delta C tol lo hi = Inr lo"
| "bisect (Suc n) delta C tol lo hi =
     (let mid = (1 / 2) * (lo + hi) in
      case poisson_overload_prob mid C of
        Inl e \<Rightarrow> Inl e
      | Inr pr \<Rightarrow>
          (let hi' = (if pr > delta then mid else hi);
               lo' = (if pr > delta then lo else mid)
           in if hi' - lo' < tol * (1 + lo') then Inr lo'
              else bisect n delta C tol lo' hi'))"

definition default_tol :: real where
  "default_tol = 1 / 10 ^ 8"

definition lambda_max_poisson :: "real \<Rightarrow> pynum \<Rightarrow> real \<Rightarrow> error + real" where
  "lambda_max_poisson delta C tol =
     (if \<not> (0 < delta \<and> delta < 1) then Inl (ValueError ''delta must be in (0,1)'')
      else if num_val C < 0 then Inl (ValueError ''C must be >= 0'')
      else (case expand_hi 80 delta C (max 1 (num_val C + 1)) of
              Inl e \<Rightarrow> Inl e
            | Inr hi \<Rightarrow> bisect 80 delta C tol 0 hi))"

subsection \<open>\<^verbatim>\<open>cap_roc\<close>\<close>

text \<open>
  The dictionary \<^verbatim>\<open>delta_out\<close> and the dictionary that \<^verbatim>\<open>cap_roc\<close> returns.
  \<^verbatim>\<open>int(round(C))\<close> is \<open>py_round C\<close>.
\<close>

record delta_result =
  delta_value :: real
  C_int :: int
  lam_max :: real
  overload_prob_at_A :: real
  passed_delta :: bool
  fpr_max_delta_raw :: pyfloat

record cap_result =
  A :: real
  passed_mean :: bool
  fpr_max_mean_raw :: pyfloat
  tpr_max_mean_raw :: pyfloat
  C_required :: real
  delta_out :: "delta_result option"

text \<open>The block under \<^verbatim>\<open>if delta is not None\<close>; \<open>a\<close> is the rate \<open>A\<close> computed before it.\<close>

definition delta_gate ::
  "real \<Rightarrow> real \<Rightarrow> real \<Rightarrow> real \<Rightarrow> real \<Rightarrow> real \<Rightarrow> error + delta_result" where
  "delta_gate R p tpr C a delta =
     (let c_int = py_round C in
      case lambda_max_poisson delta (PyInt c_int) default_tol of
        Inl e \<Rightarrow> Inl e
      | Inr lm \<Rightarrow>
          (case poisson_overload_prob a (PyInt c_int) of
             Inl e \<Rightarrow> Inl e
           | Inr ov \<Rightarrow>
               Inr \<lparr> delta_value = delta, C_int = c_int, lam_max = lm,
                     overload_prob_at_A = ov, passed_delta = (a \<le> lm),
                     fpr_max_delta_raw =
                       (if p < 1 then Num ((lm / R - p * tpr) / (1 - p)) else NaN) \<rparr>))"

definition cap_roc ::
  "real \<Rightarrow> real \<Rightarrow> real \<Rightarrow> real \<Rightarrow> real \<Rightarrow> real option \<Rightarrow> error + cap_result" where
  "cap_roc R p tpr fpr C delta =
     (if R \<le> 0 then Inl (ValueError ''R must be > 0'')
      else if \<not> (0 \<le> p \<and> p \<le> 1) then Inl (ValueError ''p must be in [0,1]'')
      else if \<not> (0 \<le> tpr \<and> tpr \<le> 1) then Inl (ValueError ''TPR must be in [0,1]'')
      else if \<not> (0 \<le> fpr \<and> fpr \<le> 1) then Inl (ValueError ''FPR must be in [0,1]'')
      else if C < 0 then Inl (ValueError ''C must be >= 0'')
      else
        (let a = R * (p * tpr + (1 - p) * fpr);
             fmm = (if p < 1 then Num ((C / R - p * tpr) / (1 - p)) else NaN);
             tmm = (if p > 0 then Num ((C / R - (1 - p) * fpr) / p) else NaN)
         in case delta of
              None \<Rightarrow>
                Inr \<lparr> A = a, passed_mean = (a \<le> C), fpr_max_mean_raw = fmm,
                      tpr_max_mean_raw = tmm, C_required = a, delta_out = None \<rparr>
            | Some d \<Rightarrow>
                (case delta_gate R p tpr C a d of
                   Inl e \<Rightarrow> Inl e
                 | Inr dr \<Rightarrow>
                     Inr \<lparr> A = a, passed_mean = (a \<le> C), fpr_max_mean_raw = fmm,
                           tpr_max_mean_raw = tmm, C_required = a, delta_out = Some dr \<rparr>)))"

subsection \<open>The Poisson distribution function as the specification writes it\<close>

text \<open>
  The reference of the refinement claim: the sum of \<open>e\<^sup>-\<^sup>\<lambda> \<lambda>\<^sup>i / i!\<close> for \<open>i\<close> from 0 to
  \<open>k\<close>, clamped to the unit interval. For negative \<open>k\<close> the sum is empty.
\<close>

definition clamp01 :: "real \<Rightarrow> real" where
  "clamp01 x = (if x < 0 then 0 else if x > 1 then 1 else x)"

definition poisson_sum :: "int \<Rightarrow> real \<Rightarrow> real" where
  "poisson_sum k lam = (\<Sum>i \<in> {0 .. k}. exp (- lam) * lam ^ nat i / fact (nat i))"

definition poisson_cdf_ref :: "int \<Rightarrow> real \<Rightarrow> real" where
  "poisson_cdf_ref k lam = clamp01 (poisson_sum k lam)"

section \<open>Properties\<close>

subsection \<open>\<^verbatim>\<open>math.exp\<close>\<close>

lemma py_round_nonneg: "0 \<le> x \<Longrightarrow> 0 \<le> py_round x"
  by (simp add: py_round_def Let_def)

lemma py_round_below_half: "0 \<le> x \<Longrightarrow> x < 1 / 2 \<Longrightarrow> py_round x = 0"
proof -
  assume x: "0 \<le> x" "x < 1 / 2"
  then have "\<lfloor>x\<rfloor> = 0" by (simp add: floor_eq_iff)
  with x show ?thesis by (simp add: py_round_def Let_def)
qed

lemma math_exp_normal: "1 / 2 ^ 1022 \<le> exp x \<Longrightarrow> math_exp x = exp x"
  by (simp add: math_exp_def Let_def)

lemma math_exp_0: "math_exp 0 = 1"
  by (rule trans [OF math_exp_normal]) simp_all

lemma math_exp_nonneg: "0 \<le> math_exp x"
  by (simp add: math_exp_def Let_def py_round_nonneg)

lemma math_exp_underflow:
  assumes "exp x * 2 ^ 1075 < 1"
  shows "math_exp x = 0"
proof -
  have h: "exp x * 2 ^ 1074 < 1 / 2"
  proof -
    have "exp x * 2 ^ 1075 = (exp x * 2 ^ 1074) * 2" by simp
    with assms show ?thesis by linarith
  qed
  then have r: "py_round (exp x * 2 ^ 1074) = 0"
    by (intro py_round_below_half) simp_all
  have "exp x * 2 ^ 1074 < 1 * 2 ^ 52" using h by simp
  then have "exp x < 2 ^ 52 / 2 ^ 1074" by (simp add: pos_less_divide_eq)
  also have "\<dots> = (1::real) / 2 ^ 1022" by simp
  finally have lt: "exp x < 1 / 2 ^ 1022" .
  show ?thesis
    unfolding math_exp_def Let_def by (simp only: lt r if_True of_int_0 div_0)
qed

subsection \<open>The recurrence of \<^verbatim>\<open>poisson_cdf\<close>\<close>

lemma cdf_loop_closed:
  "cdf_loop k lam =
     (math_exp (- lam) * lam ^ k / fact k, (\<Sum>i \<le> k. math_exp (- lam) * lam ^ i / fact i))"
proof (induction k)
  case 0
  show ?case by (simp add: cdf_loop_def Let_def)
next
  case (Suc k)
  have "cdf_loop (Suc k) lam = cdf_step lam (cdf_loop k lam) (Suc k)"
    by (simp add: cdf_loop_def Let_def)
  also have "\<dots> = (math_exp (- lam) * lam ^ Suc k / fact (Suc k),
                    (\<Sum>i \<le> Suc k. math_exp (- lam) * lam ^ i / fact i))"
    by (simp add: Suc.IH field_simps del: of_nat_Suc)
  finally show ?case .
qed

lemma cdf_total_nonneg: "0 \<le> lam \<Longrightarrow> 0 \<le> snd (cdf_loop k lam)"
  by (simp add: cdf_loop_closed sum_nonneg math_exp_nonneg)

lemma poisson_cdf_PyInt_total:
  "0 \<le> lam \<Longrightarrow> \<exists>c. poisson_cdf (PyInt k) lam = Inr c \<and> 0 \<le> c \<and> c \<le> 1"
  using cdf_total_nonneg [of lam "nat k"]
  by (simp add: poisson_cdf_def Let_def)

lemma overload_total:
  "0 \<le> lam \<Longrightarrow> \<exists>pr. poisson_overload_prob lam (PyInt C) = Inr pr"
  using poisson_cdf_PyInt_total [of lam C]
  by (auto simp: poisson_overload_prob_def)

subsection \<open>The reference sum\<close>

lemma exp_partial_sum_le:
  assumes "0 \<le> (x::real)"
  shows "(\<Sum>i \<le> k. x ^ i / fact i) \<le> exp x"
proof -
  have s: "summable (\<lambda>n. x ^ n / fact n)"
    using summable_exp [of x] by (simp add: field_simps)
  have "(\<Sum>i \<le> k. x ^ i / fact i) = (\<Sum>i < Suc k. x ^ i / fact i)"
    by (simp add: lessThan_Suc_atMost)
  also have "\<dots> \<le> (\<Sum>n. x ^ n / fact n)"
    using s assms by (intro sum_le_suminf) auto
  also have "\<dots> = exp x"
    by (simp add: exp_def field_simps)
  finally show ?thesis .
qed

lemma int_image_atMost:
  assumes "0 \<le> k"
  shows "int ` {.. nat k} = {0 .. k}"
proof (rule set_eqI)
  fix j :: int
  show "j \<in> int ` {.. nat k} \<longleftrightarrow> j \<in> {0 .. k}"
  proof
    assume "j \<in> int ` {.. nat k}"
    then obtain n where "j = int n" "n \<le> nat k" by auto
    with assms show "j \<in> {0 .. k}" by simp
  next
    assume j: "j \<in> {0 .. k}"
    then have "j = int (nat j)" "nat j \<le> nat k" by (simp_all add: nat_mono)
    then show "j \<in> int ` {.. nat k}" by blast
  qed
qed

lemma poisson_sum_nonneg_k:
  assumes "0 \<le> k"
  shows "poisson_sum k lam = (\<Sum>i \<le> nat k. exp (- lam) * lam ^ i / fact i)"
proof -
  have "(\<Sum>i \<le> nat k. exp (- lam) * lam ^ i / fact i)
      = (\<Sum>i \<in> int ` {.. nat k}. exp (- lam) * lam ^ nat i / fact (nat i))"
    by (simp add: sum.reindex)
  then show ?thesis by (simp add: poisson_sum_def int_image_atMost [OF assms])
qed

lemma poisson_sum_neg_k: "k < 0 \<Longrightarrow> poisson_sum k lam = 0"
  by (simp add: poisson_sum_def)

lemma poisson_sum_ge_0: "0 \<le> lam \<Longrightarrow> 0 \<le> poisson_sum k lam"
  by (simp add: poisson_sum_def sum_nonneg)

lemma poisson_sum_pos:
  assumes "0 < lam" "0 \<le> k"
  shows "0 < poisson_sum k lam"
proof -
  have "0 < (\<Sum>i \<le> nat k. exp (- lam) * lam ^ i / fact i)"
    using assms(1) by (intro sum_pos) simp_all
  then show ?thesis by (simp add: poisson_sum_nonneg_k [OF assms(2)])
qed

lemma poisson_sum_le_1:
  assumes "0 \<le> lam"
  shows "poisson_sum k lam \<le> 1"
proof (cases "0 \<le> k")
  case True
  have "poisson_sum k lam = exp (- lam) * (\<Sum>i \<le> nat k. lam ^ i / fact i)"
    by (simp add: poisson_sum_nonneg_k [OF True] sum_distrib_left)
  also have "\<dots> \<le> exp (- lam) * exp lam"
    by (intro mult_left_mono exp_partial_sum_le assms) simp
  also have "\<dots> = 1" by (simp add: exp_minus)
  finally show ?thesis .
next
  case False
  then show ?thesis by (simp add: poisson_sum_neg_k)
qed

lemma poisson_cdf_ref_eq:
  "0 \<le> lam \<Longrightarrow> poisson_cdf_ref k lam = poisson_sum k lam"
  using poisson_sum_ge_0 [of lam k] poisson_sum_le_1 [of lam k]
  by (simp add: poisson_cdf_ref_def clamp01_def)

text \<open>
  Where \<open>e\<^sup>-\<^sup>\<lambda>\<close> is a normal double, the loop of \<^verbatim>\<open>poisson_cdf\<close> computes the
  reference sum.
\<close>

lemma poisson_cdf_normal:
  assumes "0 \<le> lam" "1 / 2 ^ 1022 \<le> exp (- lam)"
  shows "poisson_cdf (PyInt k) lam = Inr (poisson_cdf_ref k lam)"
proof (cases "0 \<le> k")
  case True
  have "snd (cdf_loop (nat k) lam) = poisson_sum k lam"
    by (simp only: cdf_loop_closed snd_conv poisson_sum_nonneg_k [OF True]
          math_exp_normal [OF assms(2)])
  with True assms(1) show ?thesis
    by (simp add: poisson_cdf_def poisson_cdf_ref_def clamp01_def Let_def)
next
  case False
  then show ?thesis
    by (simp add: poisson_cdf_def poisson_cdf_ref_def clamp01_def poisson_sum_neg_k)
qed

text \<open>Where \<open>e\<^sup>-\<^sup>\<lambda>\<close> underflows, every term of the loop is 0, and so is the total.\<close>

lemma poisson_cdf_underflow:
  assumes "0 \<le> lam" "0 \<le> k" "exp (- lam) * 2 ^ 1075 < 1"
  shows "poisson_cdf (PyInt k) lam = Inr 0"
proof -
  have "snd (cdf_loop (nat k) lam) = 0"
    by (simp only: cdf_loop_closed snd_conv math_exp_underflow [OF assms(3)]) simp
  with assms(1,2) show ?thesis
    by (simp add: poisson_cdf_def Let_def)
qed

lemma exp_800_big: "(2::real) ^ 1075 < exp 800"
proof -
  have "(13 / 8 :: real) \<le> exp (1 / 2)"
    using exp_lower_Taylor_quadratic [of "1 / 2 :: real"] by (simp add: power2_eq_square)
  then have "(13 / 8 :: real) ^ 16 \<le> exp (1 / 2) ^ 16"
    by (intro power_mono) simp_all
  moreover have "exp (1 / 2 :: real) ^ 16 = exp 8"
    using exp_of_nat_mult [of 16 "1 / 2 :: real"] by simp
  moreover have "(2::real) ^ 11 \<le> (13 / 8) ^ 16"
    by (simp add: power_divide)
  ultimately have "(2::real) ^ 11 \<le> exp 8" by linarith
  then have "((2::real) ^ 11) ^ 100 \<le> exp 8 ^ 100"
    by (intro power_mono) simp_all
  moreover have "exp (8::real) ^ 100 = exp 800"
    using exp_of_nat_mult [of 100 "8 :: real"] by simp
  moreover have "((2::real) ^ 11) ^ 100 = 2 ^ 1100"
    by (subst power_mult [symmetric]) simp
  moreover have "(2::real) ^ 1075 < 2 ^ 1100"
    by (rule power_strict_increasing) simp_all
  ultimately show ?thesis by linarith
qed

lemma exp_minus_800_underflows: "exp (- 800 :: real) * 2 ^ 1075 < 1"
proof -
  have "exp (- 800 :: real) * 2 ^ 1075 = 2 ^ 1075 / exp 800"
    by (simp only: exp_minus divide_inverse mult.commute)
  also have "\<dots> < 1"
    using exp_800_big by (simp only: divide_less_eq_1_pos exp_gt_zero)
  finally show ?thesis .
qed

subsection \<open>Claims about \<^verbatim>\<open>poisson_cdf\<close>\<close>

text \<open>
  C3 says that \<^verbatim>\<open>poisson_cdf\<close> returns the reference value for every \<open>lam \<ge> 0\<close>. The
  code does not: at \<open>k = 1000\<close>, \<open>lam = 800\<close> the first term \<^verbatim>\<open>math.exp(-800.0)\<close> is
  \<^verbatim>\<open>0.0\<close>, every later term is a product with it, and the function returns 0, where
  the reference sum is positive (it is close to 1).
\<close>

theorem poisson_cdf_underflow_at_800:
  "poisson_cdf (PyInt 1000) 800 = Inr 0 \<and> 0 < poisson_cdf_ref 1000 800"
proof -
  have "poisson_cdf (PyInt 1000) 800 = Inr 0"
    using poisson_cdf_underflow [OF _ _ exp_minus_800_underflows, of 1000] by simp
  moreover have "0 < poisson_cdf_ref 1000 800"
    using poisson_sum_pos [of 800 1000] by (simp add: poisson_cdf_ref_eq)
  ultimately show ?thesis by blast
qed

text \<open>
  C6, as the specification states it: \<^verbatim>\<open>poisson_cdf\<close> fails whenever \<open>lam < 0\<close>, for
  every integer \<open>k\<close>. The code tests \<open>k < 0\<close> first: at \<open>k = -1\<close> and \<open>lam = -1\<close> it
  returns 0 and raises nothing.
\<close>

theorem poisson_cdf_negative_lam_counterexample:
  "poisson_cdf (PyInt (- 1)) (- 1) = Inr 0"
  by (simp add: poisson_cdf_def)

text \<open>
  C6, amended: for an integer \<open>k\<close>, \<^verbatim>\<open>poisson_cdf\<close> fails with the \<^verbatim>\<open>ValueError\<close> on
  \<open>lam\<close> whenever \<open>lam < 0\<close> and \<open>k \<ge> 0\<close>, and returns exactly 0 whenever \<open>k < 0\<close>,
  whatever \<open>lam\<close> is.
\<close>

theorem poisson_cdf_error_and_zero:
  "(lam < 0 \<and> 0 \<le> k \<longrightarrow> poisson_cdf (PyInt k) lam = Inl (ValueError ''lam must be >= 0'')) \<and>
   (k < 0 \<longrightarrow> poisson_cdf (PyInt k) lam' = Inr 0)"
  by (simp add: poisson_cdf_def)

theorem poisson_cdf_error_and_zero_witness:
  "(- 1 :: real) < 0 \<and> (0::int) \<le> 2 \<and>
   poisson_cdf (PyInt 2) (- 1) = Inl (ValueError ''lam must be >= 0'') \<and>
   (- 1 :: int) < 0 \<and> poisson_cdf (PyInt (- 1)) 3 = Inr 0"
  using poisson_cdf_error_and_zero [of "- 1" 2 3]
        poisson_cdf_error_and_zero [of 0 "- 1" 3] by simp

subsection \<open>The two loops of \<^verbatim>\<open>lambda_max_poisson\<close>\<close>

lemma poisson_sum_at_0: "0 \<le> C \<Longrightarrow> poisson_sum C 0 = 1"
proof -
  assume C: "0 \<le> C"
  have "(\<Sum>i \<le> nat C. (0::real) ^ i / fact i) = (\<Sum>i \<le> nat C. if i = 0 then 1 else 0)"
    by (rule sum.cong) (auto simp: power_0_left)
  then show ?thesis by (simp add: poisson_sum_nonneg_k [OF C])
qed

lemma overload_at_0: "0 \<le> C \<Longrightarrow> poisson_overload_prob 0 (PyInt C) = Inr 0"
proof -
  assume C: "0 \<le> C"
  have "(1::real) / 2 ^ 1022 \<le> exp (- 0)" by simp
  from poisson_cdf_normal [OF _ this, of C]
  have "poisson_cdf (PyInt C) 0 = Inr (poisson_cdf_ref C 0)" by simp
  then show ?thesis
    by (simp add: poisson_overload_prob_def poisson_cdf_ref_eq poisson_sum_at_0 [OF C])
qed

lemma expand_hi_ok:
  "0 \<le> hi \<Longrightarrow> \<exists>hi'. expand_hi n delta (PyInt C) hi = Inr hi' \<and> hi \<le> hi'"
proof (induction n arbitrary: hi)
  case 0
  show ?case by simp
next
  case (Suc n)
  from overload_total [OF Suc.prems] obtain pr where
    pr: "poisson_overload_prob hi (PyInt C) = Inr pr" by blast
  from Suc.prems have h2: "0 \<le> hi * 2" by simp
  from Suc.IH [OF h2] obtain hi' where
    "expand_hi n delta (PyInt C) (hi * 2) = Inr hi'" "hi * 2 \<le> hi'" by blast
  with Suc.prems pr show ?case
    by (simp add: Let_def)
qed

lemma bisect_Suc_step:
  assumes "poisson_overload_prob mid C = Inr pr" and mid: "mid = (1 / 2) * (lo + hi)"
  shows "bisect (Suc n) delta C tol lo hi =
           (if pr > delta
            then (if mid - lo < tol * (1 + lo) then Inr lo
                  else bisect n delta C tol lo mid)
            else (if hi - mid < tol * (1 + mid) then Inr mid
                  else bisect n delta C tol mid hi))"
  using assms(1) unfolding mid bisect.simps Let_def by simp

lemma bisect_safe:
  "0 \<le> lo \<Longrightarrow> lo \<le> hi \<Longrightarrow> poisson_overload_prob lo (PyInt C) = Inr p0 \<Longrightarrow> p0 \<le> delta \<Longrightarrow>
     \<exists>lam pr. bisect n delta (PyInt C) tol lo hi = Inr lam \<and> 0 \<le> lam \<and>
              poisson_overload_prob lam (PyInt C) = Inr pr \<and> pr \<le> delta"
proof (induction n arbitrary: lo hi p0)
  case 0
  then show ?case by simp
next
  case (Suc n)
  define mid where "mid = (1 / 2) * (lo + hi)"
  from Suc.prems have m: "0 \<le> mid" "lo \<le> mid" "mid \<le> hi"
    by (simp_all add: mid_def)
  from overload_total [OF m(1)] obtain pm where
    pm: "poisson_overload_prob mid (PyInt C) = Inr pm" by blast
  note step = bisect_Suc_step [OF pm mid_def, of n delta tol]
  show ?case
  proof (cases "pm > delta")
    case True
    show ?thesis
    proof (cases "mid - lo < tol * (1 + lo)")
      case stop: True
      with True step Suc.prems show ?thesis by simp
    next
      case go: False
      with True step Suc.IH [OF Suc.prems(1) m(2) Suc.prems(3,4)] show ?thesis by simp
    qed
  next
    case False
    then have safe: "pm \<le> delta" by simp
    show ?thesis
    proof (cases "hi - mid < tol * (1 + mid)")
      case stop: True
      with False step m(1) pm safe show ?thesis by simp
    next
      case go: False
      with False step Suc.IH [OF m(1) m(3) pm safe] show ?thesis by simp
    qed
  qed
qed

lemma lambda_max_poisson_ok:
  assumes "0 < delta" "delta < 1" "0 \<le> C"
  shows "\<exists>lam pr. lambda_max_poisson delta (PyInt C) tol = Inr lam \<and> 0 \<le> lam \<and>
                  poisson_overload_prob lam (PyInt C) = Inr pr \<and> pr \<le> delta"
proof -
  have "(0::real) \<le> max 1 (of_int C + 1)" by simp
  from expand_hi_ok [OF this] obtain hi where
    hi: "expand_hi 80 delta (PyInt C) (max 1 (of_int C + 1)) = Inr hi"
        "max 1 (of_int C + 1) \<le> hi" by blast
  then have "(0::real) \<le> hi" by simp
  moreover have "(0::real) \<le> delta" using assms by simp
  ultimately obtain lam pr where
    "bisect 80 delta (PyInt C) tol 0 hi = Inr lam" "0 \<le> lam"
    "poisson_overload_prob lam (PyInt C) = Inr pr" "pr \<le> delta"
    using bisect_safe [OF _ _ overload_at_0 [OF assms(3)], of hi delta 80 tol] by auto
  with assms hi(1) show ?thesis
    by (simp add: lambda_max_poisson_def)
qed

text \<open>
  C1. For \<open>delta\<close> in the open interval (0,1) and an integer \<open>C \<ge> 0\<close>,
  \<^verbatim>\<open>lambda_max_poisson\<close> returns a value, and the overload probability at that value, as
  \<^verbatim>\<open>poisson_overload_prob\<close> computes it, is at most \<open>delta\<close>. This holds for every
  tolerance, the default included.
\<close>

theorem lambda_max_poisson_within_risk:
  assumes "0 < delta" "delta < 1" "0 \<le> C"
  shows "\<exists>lam pr. lambda_max_poisson delta (PyInt C) tol = Inr lam \<and>
                  poisson_overload_prob lam (PyInt C) = Inr pr \<and> pr \<le> delta"
  using lambda_max_poisson_ok [OF assms] by blast

theorem lambda_max_poisson_within_risk_witness:
  "(0::real) < 1 / 100 \<and> (1 / 100 :: real) < 1 \<and> (0::int) \<le> 4 \<and>
   (\<exists>lam pr. lambda_max_poisson (1 / 100) (PyInt 4) default_tol = Inr lam \<and>
             poisson_overload_prob lam (PyInt 4) = Inr pr \<and> pr \<le> 1 / 100)"
  using lambda_max_poisson_within_risk [of "1 / 100" 4 default_tol] by simp

subsection \<open>The checks of \<^verbatim>\<open>lambda_max_poisson\<close>\<close>

lemma overload_PyFloat:
  "0 \<le> x \<Longrightarrow> 0 \<le> lam \<Longrightarrow> poisson_overload_prob lam (PyFloat x) = Inl TypeError"
  by (simp add: poisson_overload_prob_def poisson_cdf_def)

lemma expand_hi_PyFloat:
  "0 \<le> x \<Longrightarrow> 0 \<le> hi \<Longrightarrow> expand_hi (Suc n) delta (PyFloat x) hi = Inl TypeError"
  by (simp add: overload_PyFloat)

lemma lambda_max_poisson_PyFloat:
  assumes "0 < delta" "delta < 1" "0 \<le> x"
  shows "lambda_max_poisson delta (PyFloat x) tol = Inl TypeError"
proof -
  have "(0::real) \<le> max 1 (x + 1)" by simp
  from expand_hi_PyFloat [OF assms(3) this, of 79 delta]
  have "expand_hi 80 delta (PyFloat x) (max 1 (x + 1)) = Inl TypeError"
    by (simp add: eval_nat_numeral del: expand_hi.simps)
  with assms show ?thesis
    by (simp add: lambda_max_poisson_def)
qed

text \<open>
  C7, as the specification states it: \<^verbatim>\<open>lambda_max_poisson\<close> fails with the
  \<^verbatim>\<open>ValueError\<close> of invalid input when \<open>C\<close> is not an integer. The code never tests
  that: at \<open>delta = 0.5\<close> and \<open>C = 2.5\<close> both checks pass, and the first call of
  \<^verbatim>\<open>poisson_cdf\<close> fails in \<^verbatim>\<open>range(1, k + 1)\<close> with a \<^verbatim>\<open>TypeError\<close>.
\<close>

theorem lambda_max_poisson_float_C_counterexample:
  "lambda_max_poisson (1 / 2) (PyFloat (5 / 2)) default_tol = Inl TypeError"
  by (rule lambda_max_poisson_PyFloat) simp_all

text \<open>
  C7, amended: \<^verbatim>\<open>lambda_max_poisson\<close> fails with the \<^verbatim>\<open>ValueError\<close> on \<open>delta\<close> when
  \<open>delta\<close> is outside the open interval (0,1), the endpoints 0 and 1 included, and
  with a \<^verbatim>\<open>ValueError\<close> when \<open>C\<close> is negative; for \<open>delta\<close> inside the interval, an
  integer \<open>C \<ge> 0\<close> gives a result and no error, and a float \<open>C \<ge> 0\<close> gives a
  \<^verbatim>\<open>TypeError\<close>.
\<close>

theorem lambda_max_poisson_checks:
  "(\<not> (0 < delta \<and> delta < 1) \<longrightarrow>
      lambda_max_poisson delta C tol = Inl (ValueError ''delta must be in (0,1)'')) \<and>
   lambda_max_poisson 0 C tol = Inl (ValueError ''delta must be in (0,1)'') \<and>
   lambda_max_poisson 1 C tol = Inl (ValueError ''delta must be in (0,1)'') \<and>
   (num_val C < 0 \<longrightarrow> (\<exists>msg. lambda_max_poisson delta C tol = Inl (ValueError msg))) \<and>
   (0 < delta \<and> delta < 1 \<and> num_val C < 0 \<longrightarrow>
      lambda_max_poisson delta C tol = Inl (ValueError ''C must be >= 0'')) \<and>
   (0 < delta \<and> delta < 1 \<and> 0 \<le> n \<longrightarrow>
      (\<exists>lam. lambda_max_poisson delta (PyInt n) tol = Inr lam)) \<and>
   (0 < delta \<and> delta < 1 \<and> 0 \<le> x \<longrightarrow>
      lambda_max_poisson delta (PyFloat x) tol = Inl TypeError)"
proof -
  have "0 < delta \<and> delta < 1 \<and> 0 \<le> n \<longrightarrow>
          (\<exists>lam. lambda_max_poisson delta (PyInt n) tol = Inr lam)"
    using lambda_max_poisson_ok [of delta n tol] by blast
  moreover have "0 < delta \<and> delta < 1 \<and> 0 \<le> x \<longrightarrow>
          lambda_max_poisson delta (PyFloat x) tol = Inl TypeError"
    by (simp add: lambda_max_poisson_PyFloat)
  ultimately show ?thesis
    by (simp add: lambda_max_poisson_def)
qed

theorem lambda_max_poisson_checks_witness:
  "lambda_max_poisson (3 / 2) (PyInt 4) default_tol = Inl (ValueError ''delta must be in (0,1)'') \<and>
   lambda_max_poisson 0 (PyInt 4) default_tol = Inl (ValueError ''delta must be in (0,1)'') \<and>
   lambda_max_poisson 1 (PyInt 4) default_tol = Inl (ValueError ''delta must be in (0,1)'') \<and>
   lambda_max_poisson (1 / 2) (PyInt (- 1)) default_tol = Inl (ValueError ''C must be >= 0'') \<and>
   (\<exists>lam. lambda_max_poisson (1 / 2) (PyInt 4) default_tol = Inr lam) \<and>
   lambda_max_poisson (1 / 2) (PyFloat (5 / 2)) default_tol = Inl TypeError"
  using lambda_max_poisson_checks [of "3 / 2" "PyInt 4" default_tol 4 "5 / 2"]
        lambda_max_poisson_checks [of "1 / 2" "PyInt (- 1)" default_tol 4 "5 / 2"]
  by simp

subsection \<open>The search at \<open>C = 0\<close>, \<open>delta = 1/2\<close>\<close>

lemma poisson_sum_0: "poisson_sum 0 lam = exp (- lam)"
  by (simp add: poisson_sum_def)

lemma exp_minus_unit_normal:
  assumes "0 \<le> lam" "lam \<le> 1"
  shows "(1::real) / 2 ^ 1022 \<le> exp (- lam)"
proof -
  have "(1::real) / 2 ^ 1022 \<le> 1 / 2 ^ 2"
    by (intro divide_left_mono power_increasing) simp_all
  also have "\<dots> \<le> 1 / exp 1"
    using exp_le by (intro divide_left_mono) simp_all
  also have "\<dots> = exp (- 1)" by (simp add: exp_minus inverse_eq_divide)
  also have "\<dots> \<le> exp (- lam)" using assms by simp
  finally show ?thesis .
qed

lemma overload_0_unit:
  assumes "0 \<le> lam" "lam \<le> 1"
  shows "poisson_overload_prob lam (PyInt 0) = Inr (1 - exp (- lam))"
  using poisson_cdf_normal [OF assms(1) exp_minus_unit_normal [OF assms], of 0]
  by (simp add: poisson_overload_prob_def poisson_cdf_ref_eq [OF assms(1)] poisson_sum_0)

lemma half_less_iff_ln2: "(1 / 2 :: real) < 1 - exp (- x) \<longleftrightarrow> ln 2 < x"
proof -
  have "(1 / 2 :: real) < 1 - exp (- x) \<longleftrightarrow> exp (- x) < 1 / 2" by auto
  also have "\<dots> \<longleftrightarrow> exp (- x) < exp (- ln 2)"
    by (simp add: exp_minus)
  also have "\<dots> \<longleftrightarrow> ln 2 < x" by simp
  finally show ?thesis .
qed

lemma ln2_bounds: "0 < ln (2::real)" "ln (2::real) < 1"
proof -
  show "0 < ln (2::real)" by (simp add: ln_gt_zero)
  have "1 + 1 + 1\<^sup>2 / 2 \<le> exp (1::real)"
    by (rule exp_lower_Taylor_quadratic) simp
  then have "exp (ln 2) < exp (1::real)" by simp
  then show "ln (2::real) < 1" by (simp only: exp_less_cancel_iff)
qed

lemma bisect_ln2:
  "0 \<le> lo \<Longrightarrow> lo \<le> ln 2 \<Longrightarrow> ln 2 < hi \<Longrightarrow> hi \<le> 1 \<Longrightarrow> 0 < tol \<Longrightarrow>
     \<exists>lam. bisect n (1 / 2) (PyInt 0) tol lo hi = Inr lam \<and> lam \<le> ln 2 \<and>
           ln 2 - lam < max (2 * tol) ((hi - lo) / 2 ^ n)"
proof (induction n arbitrary: lo hi)
  case 0
  then show ?case by simp
next
  case (Suc n)
  define mid where "mid = (1 / 2) * (lo + hi)"
  from Suc.prems have m: "0 \<le> mid" "mid \<le> 1" by (simp_all add: mid_def)
  have w: "mid - lo = (hi - lo) / 2" "hi - mid = (hi - lo) / 2"
    by (simp_all add: mid_def field_simps)
  note step = bisect_Suc_step [OF overload_0_unit [OF m] mid_def, of n "1 / 2" tol]
  have tol2: "tol * (1 + ln 2) < 2 * tol"
    using ln2_bounds(2) Suc.prems(5) by simp
  show ?case
  proof (cases "ln 2 < mid")
    case True
    then have up: "1 / 2 < 1 - exp (- mid)"
      unfolding half_less_iff_ln2 .
    show ?thesis
    proof (cases "mid - lo < tol * (1 + lo)")
      case stop: True
      have "tol * (1 + lo) \<le> tol * (1 + ln 2)"
        using Suc.prems by simp
      with stop True tol2 have "ln 2 - lo < 2 * tol" by simp
      with up stop step Suc.prems(2) show ?thesis by simp
    next
      case go: False
      from Suc.IH [OF Suc.prems(1,2) True m(2) Suc.prems(5)] obtain lam where
        l: "bisect n (1 / 2) (PyInt 0) tol lo mid = Inr lam" "lam \<le> ln 2"
           "ln 2 - lam < max (2 * tol) ((mid - lo) / 2 ^ n)" by blast
      have "(mid - lo) / 2 ^ n = (hi - lo) / 2 ^ Suc n"
        by (simp add: w)
      with l up go step show ?thesis by simp
    qed
  next
    case False
    then have le: "mid \<le> ln 2" by simp
    from False have down: "\<not> 1 / 2 < 1 - exp (- mid)"
      unfolding half_less_iff_ln2 .
    show ?thesis
    proof (cases "hi - mid < tol * (1 + mid)")
      case stop: True
      have "tol * (1 + mid) \<le> tol * (1 + ln 2)"
        using Suc.prems le by simp
      with stop Suc.prems(3) tol2 have "ln 2 - mid < 2 * tol" by simp
      with down stop step le show ?thesis by simp
    next
      case go: False
      from Suc.IH [OF m(1) le Suc.prems(3,4,5)] obtain lam where
        l: "bisect n (1 / 2) (PyInt 0) tol mid hi = Inr lam" "lam \<le> ln 2"
           "ln 2 - lam < max (2 * tol) ((hi - mid) / 2 ^ n)" by blast
      have "(hi - mid) / 2 ^ n = (hi - lo) / 2 ^ Suc n"
        by (simp add: w)
      with l down go step show ?thesis by simp
    qed
  qed
qed

lemma expand_hi_stops:
  "poisson_overload_prob hi C = Inr pr \<Longrightarrow> delta < pr \<Longrightarrow>
     expand_hi (Suc n) delta C hi = Inr hi"
  by simp

lemma expand_hi_at_1: "expand_hi 80 (1 / 2) (PyInt 0) 1 = Inr 1"
proof -
  have "1 / 2 < 1 - exp (- 1 :: real)"
    unfolding half_less_iff_ln2 by (rule ln2_bounds(2))
  from expand_hi_stops [OF overload_0_unit this, of 79] show ?thesis
    by (simp add: eval_nat_numeral del: expand_hi.simps)
qed

text \<open>
  C9. \<^verbatim>\<open>lambda_max_poisson(0.5, 0)\<close>, with the default tolerance, returns a value within
  \<open>10\<^sup>-\<^sup>6\<close> of \<open>ln 2\<close>, the solution of \<open>1 - e\<^sup>-\<^sup>\<lambda> = 1/2\<close>.
\<close>

theorem lambda_max_poisson_half_zero:
  "\<exists>lam. lambda_max_poisson (1 / 2) (PyInt 0) default_tol = Inr lam \<and>
         \<bar>lam - ln 2\<bar> < 1 / 10 ^ 6"
proof -
  have "(0::real) < default_tol" by (simp add: default_tol_def)
  from bisect_ln2 [OF _ _ ln2_bounds(2) _ this, of 0 80] ln2_bounds(1)
  obtain lam where
    l: "bisect 80 (1 / 2) (PyInt 0) default_tol 0 1 = Inr lam" "lam \<le> ln 2"
       "ln 2 - lam < max (2 * default_tol) ((1 - 0) / 2 ^ 80)" by auto
  have "max (2 * default_tol) ((1 - 0) / 2 ^ 80) < 1 / 10 ^ 6"
    by (simp add: default_tol_def)
  with l have "\<bar>lam - ln 2\<bar> < 1 / 10 ^ 6" by linarith
  moreover have "lambda_max_poisson (1 / 2) (PyInt 0) default_tol = Inr lam"
    using l(1) expand_hi_at_1 by (simp add: lambda_max_poisson_def)
  ultimately show ?thesis by blast
qed

subsection \<open>\<^verbatim>\<open>cap_roc\<close> on valid input\<close>

lemma rate_nonneg:
  fixes R p tpr fpr :: real
  assumes "0 < R" "0 \<le> p" "p \<le> 1" "0 \<le> tpr" "0 \<le> fpr"
  shows "0 \<le> R * (p * tpr + (1 - p) * fpr)"
proof -
  from assms have "0 \<le> p * tpr" "0 \<le> (1 - p) * fpr" by simp_all
  then have "0 \<le> p * tpr + (1 - p) * fpr" by simp
  with assms(1) show ?thesis by simp
qed

lemma delta_gate_ok:
  assumes "0 < d" "d < 1" "0 \<le> C" "0 \<le> a"
  shows "\<exists>lm ov. lambda_max_poisson d (PyInt (py_round C)) default_tol = Inr lm \<and>
              poisson_overload_prob a (PyInt (py_round C)) = Inr ov \<and>
              delta_gate R p tpr C a d =
                Inr \<lparr> delta_value = d, C_int = py_round C, lam_max = lm,
                      overload_prob_at_A = ov, passed_delta = (a \<le> lm),
                      fpr_max_delta_raw =
                        (if p < 1 then Num ((lm / R - p * tpr) / (1 - p)) else NaN) \<rparr>"
proof -
  from lambda_max_poisson_ok [OF assms(1,2) py_round_nonneg [OF assms(3)], of default_tol]
  obtain lm where lm: "lambda_max_poisson d (PyInt (py_round C)) default_tol = Inr lm"
    by blast
  from overload_total [OF assms(4)] obtain ov where
    ov: "poisson_overload_prob a (PyInt (py_round C)) = Inr ov" by blast
  from lm ov show ?thesis
    by (simp add: delta_gate_def Let_def)
qed

lemma delta_gate_bad_delta:
  "\<not> (0 < d \<and> d < 1) \<Longrightarrow>
     delta_gate R p tpr C a d = Inl (ValueError ''delta must be in (0,1)'')"
  by (simp add: delta_gate_def lambda_max_poisson_def)

lemma cap_roc_None:
  assumes "0 < R" "0 \<le> p" "p \<le> 1" "0 \<le> tpr" "tpr \<le> 1" "0 \<le> fpr" "fpr \<le> 1" "0 \<le> C"
  shows "cap_roc R p tpr fpr C None =
           Inr \<lparr> A = R * (p * tpr + (1 - p) * fpr),
                 passed_mean = (R * (p * tpr + (1 - p) * fpr) \<le> C),
                 fpr_max_mean_raw = (if p < 1 then Num ((C / R - p * tpr) / (1 - p)) else NaN),
                 tpr_max_mean_raw = (if p > 0 then Num ((C / R - (1 - p) * fpr) / p) else NaN),
                 C_required = R * (p * tpr + (1 - p) * fpr),
                 delta_out = None \<rparr>"
  using assms by (simp add: cap_roc_def Let_def)

lemma cap_roc_Some:
  assumes "0 < R" "0 \<le> p" "p \<le> 1" "0 \<le> tpr" "tpr \<le> 1" "0 \<le> fpr" "fpr \<le> 1" "0 \<le> C"
    and "0 < d" "d < 1"
  shows "\<exists>lm ov. lambda_max_poisson d (PyInt (py_round C)) default_tol = Inr lm \<and>
           poisson_overload_prob (R * (p * tpr + (1 - p) * fpr)) (PyInt (py_round C)) = Inr ov \<and>
           cap_roc R p tpr fpr C (Some d) =
           Inr \<lparr> A = R * (p * tpr + (1 - p) * fpr),
                 passed_mean = (R * (p * tpr + (1 - p) * fpr) \<le> C),
                 fpr_max_mean_raw = (if p < 1 then Num ((C / R - p * tpr) / (1 - p)) else NaN),
                 tpr_max_mean_raw = (if p > 0 then Num ((C / R - (1 - p) * fpr) / p) else NaN),
                 C_required = R * (p * tpr + (1 - p) * fpr),
                 delta_out = Some
                   \<lparr> delta_value = d, C_int = py_round C, lam_max = lm,
                     overload_prob_at_A = ov,
                     passed_delta = (R * (p * tpr + (1 - p) * fpr) \<le> lm),
                     fpr_max_delta_raw =
                       (if p < 1 then Num ((lm / R - p * tpr) / (1 - p)) else NaN) \<rparr> \<rparr>"
proof -
  have a: "0 \<le> R * (p * tpr + (1 - p) * fpr)"
    by (rule rate_nonneg) (use assms in simp_all)
  from delta_gate_ok [OF assms(9,10,8) a, of R p tpr] obtain lm ov where
    "lambda_max_poisson d (PyInt (py_round C)) default_tol = Inr lm"
    "poisson_overload_prob (R * (p * tpr + (1 - p) * fpr)) (PyInt (py_round C)) = Inr ov"
    "delta_gate R p tpr C (R * (p * tpr + (1 - p) * fpr)) d =
       Inr \<lparr> delta_value = d, C_int = py_round C, lam_max = lm,
             overload_prob_at_A = ov,
             passed_delta = (R * (p * tpr + (1 - p) * fpr) \<le> lm),
             fpr_max_delta_raw =
               (if p < 1 then Num ((lm / R - p * tpr) / (1 - p)) else NaN) \<rparr>"
    by blast
  with assms show ?thesis
    by (simp add: cap_roc_def Let_def)
qed

lemma cap_roc_bad_delta:
  assumes "0 < R" "0 \<le> p" "p \<le> 1" "0 \<le> tpr" "tpr \<le> 1" "0 \<le> fpr" "fpr \<le> 1" "0 \<le> C"
    and "\<not> (0 < d \<and> d < 1)"
  shows "cap_roc R p tpr fpr C (Some d) = Inl (ValueError ''delta must be in (0,1)'')"
  using assms(1-8) delta_gate_bad_delta [OF assms(9)]
  by (simp add: cap_roc_def Let_def)

text \<open>
  C2. On valid input (\<open>R > 0\<close>; \<open>p\<close>, \<open>tpr\<close>, \<open>fpr\<close> in [0,1]; \<open>C \<ge> 0\<close>), with
  \<open>delta\<close> absent or inside (0,1), \<^verbatim>\<open>cap_roc\<close> returns a result whose \<open>A\<close> is
  \<open>R (p tpr + (1 - p) fpr)\<close>, whose \<open>passed_mean\<close> is \<open>A \<le> C\<close> and whose
  \<open>C_required\<close> equals \<open>A\<close>.
\<close>

theorem cap_roc_rate:
  assumes "0 < R" "0 \<le> p" "p \<le> 1" "0 \<le> tpr" "tpr \<le> 1" "0 \<le> fpr" "fpr \<le> 1" "0 \<le> C"
    and "case delta of None \<Rightarrow> True | Some d \<Rightarrow> 0 < d \<and> d < 1"
  shows "\<exists>res. cap_roc R p tpr fpr C delta = Inr res \<and>
               A res = R * (p * tpr + (1 - p) * fpr) \<and>
               passed_mean res = (A res \<le> C) \<and>
               C_required res = A res"
proof (cases delta)
  case None
  with cap_roc_None [OF assms(1-8)] show ?thesis by simp
next
  case (Some d)
  with assms(9) have "0 < d" "d < 1" by simp_all
  from cap_roc_Some [OF assms(1-8) this] Some show ?thesis by auto
qed

theorem cap_roc_rate_witness:
  "(0::real) < 20 \<and> (0::real) \<le> 1 / 100 \<and> (1 / 100 :: real) \<le> 1 \<and>
   (0::real) \<le> 85 / 100 \<and> (85 / 100 :: real) \<le> 1 \<and>
   (0::real) \<le> 3 / 10 \<and> (3 / 10 :: real) \<le> 1 \<and> (0::real) \<le> 4 \<and>
   (\<exists>res. cap_roc 20 (1 / 100) (85 / 100) (3 / 10) 4 None = Inr res \<and>
          A res = 611 / 100 \<and> passed_mean res = False \<and> C_required res = 611 / 100)"
proof -
  from cap_roc_rate [of 20 "1 / 100" "85 / 100" "3 / 10" 4 None] obtain res where
    r: "cap_roc 20 (1 / 100) (85 / 100) (3 / 10) 4 None = Inr res"
       "A res = 20 * (1 / 100 * (85 / 100) + (1 - 1 / 100) * (3 / 10))"
       "passed_mean res = (A res \<le> 4)" "C_required res = A res"
    by auto
  from r(2) have a: "A res = 611 / 100" by simp
  with r(3,4) have "passed_mean res = False" "C_required res = 611 / 100" by simp_all
  with r(1) a show ?thesis by simp
qed

text \<open>
  C5. \<^verbatim>\<open>cap_roc\<close> fails with a \<^verbatim>\<open>ValueError\<close> that names the first offending field when
  \<open>R \<le> 0\<close>, or \<open>p\<close>, \<open>tpr\<close> or \<open>fpr\<close> is outside [0,1], or \<open>C < 0\<close>, whether
  \<open>delta\<close> is supplied or not; the failure is the whole outcome, there is no result
  record. With \<open>delta\<close> absent it fails exactly when one of these conditions holds, and
  with \<open>delta\<close> supplied every other failure is the one on \<open>delta\<close>.
\<close>

theorem cap_roc_validation:
  "(R \<le> 0 \<longrightarrow> cap_roc R p tpr fpr C delta = Inl (ValueError ''R must be > 0'')) \<and>
   (0 < R \<and> \<not> (0 \<le> p \<and> p \<le> 1) \<longrightarrow>
      cap_roc R p tpr fpr C delta = Inl (ValueError ''p must be in [0,1]'')) \<and>
   (0 < R \<and> 0 \<le> p \<and> p \<le> 1 \<and> \<not> (0 \<le> tpr \<and> tpr \<le> 1) \<longrightarrow>
      cap_roc R p tpr fpr C delta = Inl (ValueError ''TPR must be in [0,1]'')) \<and>
   (0 < R \<and> 0 \<le> p \<and> p \<le> 1 \<and> 0 \<le> tpr \<and> tpr \<le> 1 \<and> \<not> (0 \<le> fpr \<and> fpr \<le> 1) \<longrightarrow>
      cap_roc R p tpr fpr C delta = Inl (ValueError ''FPR must be in [0,1]'')) \<and>
   (0 < R \<and> 0 \<le> p \<and> p \<le> 1 \<and> 0 \<le> tpr \<and> tpr \<le> 1 \<and> 0 \<le> fpr \<and> fpr \<le> 1 \<and> C < 0 \<longrightarrow>
      cap_roc R p tpr fpr C delta = Inl (ValueError ''C must be >= 0'')) \<and>
   ((\<exists>e. cap_roc R p tpr fpr C None = Inl e) \<longleftrightarrow>
      (R \<le> 0 \<or> p < 0 \<or> 1 < p \<or> tpr < 0 \<or> 1 < tpr \<or> fpr < 0 \<or> 1 < fpr \<or> C < 0)) \<and>
   ((\<exists>e. cap_roc R p tpr fpr C delta = Inl e \<and> e \<noteq> ValueError ''delta must be in (0,1)'') \<longleftrightarrow>
      (R \<le> 0 \<or> p < 0 \<or> 1 < p \<or> tpr < 0 \<or> 1 < tpr \<or> fpr < 0 \<or> 1 < fpr \<or> C < 0))"
proof -
  let ?bad = "R \<le> 0 \<or> p < 0 \<or> 1 < p \<or> tpr < 0 \<or> 1 < tpr \<or> fpr < 0 \<or> 1 < fpr \<or> C < 0"
  have bad: "\<exists>e. cap_roc R p tpr fpr C dl = Inl e \<and> e \<noteq> ValueError ''delta must be in (0,1)''"
    if "?bad" for dl
    using that by (auto simp: cap_roc_def)
  have good_None: "\<not> (\<exists>e. cap_roc R p tpr fpr C None = Inl e)" if "\<not> ?bad"
  proof -
    from that have v: "0 < R" "0 \<le> p" "p \<le> 1" "0 \<le> tpr" "tpr \<le> 1" "0 \<le> fpr" "fpr \<le> 1" "0 \<le> C"
      by simp_all
    show ?thesis by (simp add: cap_roc_None [OF v])
  qed
  have good: "\<not> (\<exists>e. cap_roc R p tpr fpr C delta = Inl e \<and> e \<noteq> ValueError ''delta must be in (0,1)'')"
    if "\<not> ?bad"
  proof (cases delta)
    case None
    with good_None [OF that] show ?thesis by simp
  next
    case (Some d)
    from that have v: "0 < R" "0 \<le> p" "p \<le> 1" "0 \<le> tpr" "tpr \<le> 1" "0 \<le> fpr" "fpr \<le> 1" "0 \<le> C"
      by simp_all
    show ?thesis
    proof (cases "0 < d \<and> d < 1")
      case True
      then have "0 < d" "d < 1" by simp_all
      from cap_roc_Some [OF v this] Some show ?thesis by auto
    next
      case False
      from cap_roc_bad_delta [OF v False] Some show ?thesis by simp
    qed
  qed
  have first: "(\<exists>e. cap_roc R p tpr fpr C None = Inl e) \<longleftrightarrow> ?bad"
    using bad [of None] good_None by blast
  have second: "(\<exists>e. cap_roc R p tpr fpr C delta = Inl e \<and> e \<noteq> ValueError ''delta must be in (0,1)'') \<longleftrightarrow> ?bad"
    using bad [of delta] good by blast
  have msgs:
    "R \<le> 0 \<longrightarrow> cap_roc R p tpr fpr C delta = Inl (ValueError ''R must be > 0'')"
    "0 < R \<and> \<not> (0 \<le> p \<and> p \<le> 1) \<longrightarrow>
      cap_roc R p tpr fpr C delta = Inl (ValueError ''p must be in [0,1]'')"
    "0 < R \<and> 0 \<le> p \<and> p \<le> 1 \<and> \<not> (0 \<le> tpr \<and> tpr \<le> 1) \<longrightarrow>
      cap_roc R p tpr fpr C delta = Inl (ValueError ''TPR must be in [0,1]'')"
    "0 < R \<and> 0 \<le> p \<and> p \<le> 1 \<and> 0 \<le> tpr \<and> tpr \<le> 1 \<and> \<not> (0 \<le> fpr \<and> fpr \<le> 1) \<longrightarrow>
      cap_roc R p tpr fpr C delta = Inl (ValueError ''FPR must be in [0,1]'')"
    "0 < R \<and> 0 \<le> p \<and> p \<le> 1 \<and> 0 \<le> tpr \<and> tpr \<le> 1 \<and> 0 \<le> fpr \<and> fpr \<le> 1 \<and> C < 0 \<longrightarrow>
      cap_roc R p tpr fpr C delta = Inl (ValueError ''C must be >= 0'')"
    by (simp_all add: cap_roc_def)
  from msgs first second show ?thesis by blast
qed

theorem cap_roc_validation_witness:
  "cap_roc 0 (1 / 100) (85 / 100) (3 / 10) 4 None = Inl (ValueError ''R must be > 0'') \<and>
   cap_roc 20 2 (85 / 100) (3 / 10) 4 None = Inl (ValueError ''p must be in [0,1]'') \<and>
   cap_roc 20 (1 / 100) (- 1) (3 / 10) 4 None = Inl (ValueError ''TPR must be in [0,1]'') \<and>
   cap_roc 20 (1 / 100) (85 / 100) 2 4 None = Inl (ValueError ''FPR must be in [0,1]'') \<and>
   cap_roc 20 (1 / 100) (85 / 100) (3 / 10) (- 1) None = Inl (ValueError ''C must be >= 0'') \<and>
   \<not> (\<exists>e. cap_roc 20 (1 / 100) (85 / 100) (3 / 10) 4 None = Inl e)"
  using cap_roc_validation [of 0 "1 / 100" "85 / 100" "3 / 10" 4 None]
        cap_roc_validation [of 20 2 "85 / 100" "3 / 10" 4 None]
        cap_roc_validation [of 20 "1 / 100" "- 1" "3 / 10" 4 None]
        cap_roc_validation [of 20 "1 / 100" "85 / 100" 2 4 None]
        cap_roc_validation [of 20 "1 / 100" "85 / 100" "3 / 10" "- 1" None]
        cap_roc_validation [of 20 "1 / 100" "85 / 100" "3 / 10" 4 None]
  by simp

text \<open>
  C8. On valid input, when \<open>p = 1\<close> the field \<open>fpr_max_mean_raw\<close> and, with \<open>delta\<close>
  supplied, the field \<open>fpr_max_delta_raw\<close> hold the marker and not a quotient; when
  \<open>p < 1\<close> they hold \<open>(C / R - p tpr) / (1 - p)\<close> and
  \<open>(lam_max / R - p tpr) / (1 - p)\<close>. The marker is stored and never read again: the
  other fields are the numbers and truth values computed from the inputs alone, and
  \<open>overload_prob_at_A\<close> is what \<^verbatim>\<open>poisson_overload_prob\<close> returns at \<open>A\<close>.
\<close>

theorem cap_roc_fpr_max_fields:
  assumes "0 < R" "0 \<le> p" "p \<le> 1" "0 \<le> tpr" "tpr \<le> 1" "0 \<le> fpr" "fpr \<le> 1" "0 \<le> C"
  shows
    "(\<exists>res. cap_roc R p tpr fpr C None = Inr res \<and>
        (p = 1 \<longrightarrow> fpr_max_mean_raw res = NaN) \<and>
        (p < 1 \<longrightarrow> fpr_max_mean_raw res = Num ((C / R - p * tpr) / (1 - p))) \<and>
        A res = R * (p * tpr + (1 - p) * fpr) \<and>
        passed_mean res = (A res \<le> C) \<and> C_required res = A res) \<and>
     (0 < d \<and> d < 1 \<longrightarrow>
       (\<exists>res dr lm. cap_roc R p tpr fpr C (Some d) = Inr res \<and> delta_out res = Some dr \<and>
          lambda_max_poisson d (PyInt (py_round C)) default_tol = Inr lm \<and>
          lam_max dr = lm \<and>
          (p = 1 \<longrightarrow> fpr_max_mean_raw res = NaN \<and> fpr_max_delta_raw dr = NaN) \<and>
          (p < 1 \<longrightarrow>
             fpr_max_mean_raw res = Num ((C / R - p * tpr) / (1 - p)) \<and>
             fpr_max_delta_raw dr = Num ((lm / R - p * tpr) / (1 - p))) \<and>
          A res = R * (p * tpr + (1 - p) * fpr) \<and>
          passed_mean res = (A res \<le> C) \<and> C_required res = A res \<and>
          passed_delta dr = (A res \<le> lm) \<and>
          poisson_overload_prob (A res) (PyInt (py_round C)) = Inr (overload_prob_at_A dr)))"
proof -
  have none: "\<exists>res. cap_roc R p tpr fpr C None = Inr res \<and>
        (p = 1 \<longrightarrow> fpr_max_mean_raw res = NaN) \<and>
        (p < 1 \<longrightarrow> fpr_max_mean_raw res = Num ((C / R - p * tpr) / (1 - p))) \<and>
        A res = R * (p * tpr + (1 - p) * fpr) \<and>
        passed_mean res = (A res \<le> C) \<and> C_required res = A res"
    by (simp add: cap_roc_None [OF assms])
  have some: "\<exists>res dr lm. cap_roc R p tpr fpr C (Some d) = Inr res \<and> delta_out res = Some dr \<and>
          lambda_max_poisson d (PyInt (py_round C)) default_tol = Inr lm \<and>
          lam_max dr = lm \<and>
          (p = 1 \<longrightarrow> fpr_max_mean_raw res = NaN \<and> fpr_max_delta_raw dr = NaN) \<and>
          (p < 1 \<longrightarrow>
             fpr_max_mean_raw res = Num ((C / R - p * tpr) / (1 - p)) \<and>
             fpr_max_delta_raw dr = Num ((lm / R - p * tpr) / (1 - p))) \<and>
          A res = R * (p * tpr + (1 - p) * fpr) \<and>
          passed_mean res = (A res \<le> C) \<and> C_required res = A res \<and>
          passed_delta dr = (A res \<le> lm) \<and>
          poisson_overload_prob (A res) (PyInt (py_round C)) = Inr (overload_prob_at_A dr)"
    if d: "0 < d" "d < 1"
  proof -
    from cap_roc_Some [OF assms d] obtain lm ov where
      lm: "lambda_max_poisson d (PyInt (py_round C)) default_tol = Inr lm"
      and ov: "poisson_overload_prob (R * (p * tpr + (1 - p) * fpr)) (PyInt (py_round C)) = Inr ov"
      and res: "cap_roc R p tpr fpr C (Some d) =
           Inr \<lparr> A = R * (p * tpr + (1 - p) * fpr),
                 passed_mean = (R * (p * tpr + (1 - p) * fpr) \<le> C),
                 fpr_max_mean_raw = (if p < 1 then Num ((C / R - p * tpr) / (1 - p)) else NaN),
                 tpr_max_mean_raw = (if p > 0 then Num ((C / R - (1 - p) * fpr) / p) else NaN),
                 C_required = R * (p * tpr + (1 - p) * fpr),
                 delta_out = Some
                   \<lparr> delta_value = d, C_int = py_round C, lam_max = lm,
                     overload_prob_at_A = ov,
                     passed_delta = (R * (p * tpr + (1 - p) * fpr) \<le> lm),
                     fpr_max_delta_raw =
                       (if p < 1 then Num ((lm / R - p * tpr) / (1 - p)) else NaN) \<rparr> \<rparr>"
      by blast
    show ?thesis
      unfolding res lm by (simp add: ov)
  qed
  from none some show ?thesis by blast
qed

theorem cap_roc_fpr_max_fields_witness:
  "(\<exists>res. cap_roc 20 1 (85 / 100) (7 / 100) 4 None = Inr res \<and> fpr_max_mean_raw res = NaN) \<and>
   (\<exists>res dr. cap_roc 20 1 (85 / 100) (7 / 100) 4 (Some (1 / 100)) = Inr res \<and>
      delta_out res = Some dr \<and> fpr_max_mean_raw res = NaN \<and> fpr_max_delta_raw dr = NaN) \<and>
   (\<exists>res. cap_roc 20 (1 / 2) (85 / 100) (7 / 100) 4 None = Inr res \<and>
      fpr_max_mean_raw res = Num (- 9 / 20)) \<and>
   (\<exists>res dr lm. cap_roc 20 (1 / 2) (85 / 100) (7 / 100) 4 (Some (1 / 100)) = Inr res \<and>
      delta_out res = Some dr \<and> lam_max dr = lm \<and>
      fpr_max_delta_raw dr = Num ((lm / 20 - 1 / 2 * (85 / 100)) / (1 - 1 / 2)))"
proof -
  from cap_roc_fpr_max_fields [of 20 1 "85 / 100" "7 / 100" 4 "1 / 100"]
  have one: "\<exists>res. cap_roc 20 1 (85 / 100) (7 / 100) 4 None = Inr res \<and> fpr_max_mean_raw res = NaN"
    and two: "\<exists>res dr. cap_roc 20 1 (85 / 100) (7 / 100) 4 (Some (1 / 100)) = Inr res \<and>
      delta_out res = Some dr \<and> fpr_max_mean_raw res = NaN \<and> fpr_max_delta_raw dr = NaN"
    by auto
  from cap_roc_fpr_max_fields [of 20 "1 / 2" "85 / 100" "7 / 100" 4 "1 / 100"]
  have three: "\<exists>res. cap_roc 20 (1 / 2) (85 / 100) (7 / 100) 4 None = Inr res \<and>
      fpr_max_mean_raw res = Num (- 9 / 20)"
    and four: "\<exists>res dr lm. cap_roc 20 (1 / 2) (85 / 100) (7 / 100) 4 (Some (1 / 100)) = Inr res \<and>
      delta_out res = Some dr \<and> lam_max dr = lm \<and>
      fpr_max_delta_raw dr = Num ((lm / 20 - 1 / 2 * (85 / 100)) / (1 - 1 / 2))"
    by auto
  from one two three four show ?thesis by blast
qed

subsection \<open>Rounding the capacity\<close>

lemma py_round_nearest: "\<bar>of_int (py_round x) - x\<bar> \<le> 1 / 2"
  by (simp add: py_round_def Let_def)

lemma py_round_tie_even: "\<bar>of_int (py_round x) - x\<bar> = 1 / 2 \<Longrightarrow> even (py_round x)"
  by (auto simp: py_round_def Let_def split: if_splits)

text \<open>
  C10. With \<open>delta\<close> supplied, the integer capacity \<open>C_int\<close> of the result is \<open>C\<close>
  rounded to the nearest integer, a tie going to the even one: 0.5 gives 0, 1.5 gives 2
  and 2.5 gives 2.
\<close>

theorem cap_roc_rounds_half_even:
  "py_round (1 / 2) = 0 \<and> py_round (3 / 2) = 2 \<and> py_round (5 / 2) = 2 \<and>
   \<bar>of_int (py_round C) - C\<bar> \<le> 1 / 2 \<and>
   (\<bar>of_int (py_round C) - C\<bar> = 1 / 2 \<longrightarrow> even (py_round C)) \<and>
   (0 < R \<and> 0 \<le> p \<and> p \<le> 1 \<and> 0 \<le> tpr \<and> tpr \<le> 1 \<and> 0 \<le> fpr \<and> fpr \<le> 1 \<and> 0 \<le> C \<and>
    0 < d \<and> d < 1 \<longrightarrow>
      (\<exists>res dr. cap_roc R p tpr fpr C (Some d) = Inr res \<and> delta_out res = Some dr \<and>
         C_int dr = py_round C))"
proof -
  have ex: "py_round (1 / 2) = 0" "py_round (3 / 2) = 2" "py_round (5 / 2) = 2"
    by (simp_all add: py_round_def Let_def)
  have run: "\<exists>res dr. cap_roc R p tpr fpr C (Some d) = Inr res \<and> delta_out res = Some dr \<and>
         C_int dr = py_round C"
    if "0 < R" "0 \<le> p" "p \<le> 1" "0 \<le> tpr" "tpr \<le> 1" "0 \<le> fpr" "fpr \<le> 1" "0 \<le> C"
       "0 < d" "d < 1"
    using cap_roc_Some [OF that] by auto
  from ex run py_round_nearest [of C] py_round_tie_even [of C] show ?thesis by blast
qed

theorem cap_roc_rounds_half_even_witness:
  "(\<exists>res dr. cap_roc 20 (1 / 100) (85 / 100) (7 / 100) (1 / 2) (Some (1 / 100)) = Inr res \<and>
      delta_out res = Some dr \<and> C_int dr = 0) \<and>
   (\<exists>res dr. cap_roc 20 (1 / 100) (85 / 100) (7 / 100) (3 / 2) (Some (1 / 100)) = Inr res \<and>
      delta_out res = Some dr \<and> C_int dr = 2) \<and>
   (\<exists>res dr. cap_roc 20 (1 / 100) (85 / 100) (7 / 100) (5 / 2) (Some (1 / 100)) = Inr res \<and>
      delta_out res = Some dr \<and> C_int dr = 2)"
proof -
  note t = cap_roc_rounds_half_even
  have r: "py_round (1 / 2) = 0" "py_round (3 / 2) = 2" "py_round (5 / 2) = 2"
    using t [of 0 1 0 0 0 0] by simp_all
  from t [of "1 / 2" 20 "1 / 100" "85 / 100" "7 / 100" "1 / 100"]
       t [of "3 / 2" 20 "1 / 100" "85 / 100" "7 / 100" "1 / 100"]
       t [of "5 / 2" 20 "1 / 100" "85 / 100" "7 / 100" "1 / 100"]
  show ?thesis by (simp add: r)
qed

subsection \<open>Numerical bounds\<close>

lemma ln2_upper: "ln (2::real) < 13863 / 20000"
proof -
  have "(2::real) < (\<Sum>i \<le> 10. (13863 / 20000) ^ i / fact i)"
    by (simp add: eval_nat_numeral)
  also have "\<dots> \<le> exp (13863 / 20000)"
    by (rule exp_partial_sum_le) simp
  finally have "exp (ln 2) < exp (13863 / 20000 :: real)" by simp
  then show ?thesis by (simp only: exp_less_cancel_iff)
qed

lemma ln2_lower: "1109 / 1600 < ln (2::real)"
proof -
  obtain t :: real where t: "\<bar>t\<bar> \<le> \<bar>1109 / 1600\<bar>"
    and e: "exp (1109 / 1600 :: real) = (\<Sum>m<10. (1109 / 1600) ^ m / fact m) + (exp t / fact 10) * (1109 / 1600) ^ 10"
    using Maclaurin_exp_le [of "1109 / 1600" 10] by blast
  have "t \<le> 1" using t by simp
  then have "exp t \<le> exp 1" by simp
  also have "\<dots> \<le> 3" by (rule exp_le)
  finally have "exp t \<le> 3" .
  then have "(exp t / fact 10) * (1109 / 1600 :: real) ^ 10 \<le> (3 / fact 10) * (1109 / 1600) ^ 10"
    by (intro mult_right_mono divide_right_mono) simp_all
  moreover have "(\<Sum>m<10. (1109 / 1600 :: real) ^ m / fact m) + (3 / fact 10) * (1109 / 1600) ^ 10 < 2"
    by (simp add: eval_nat_numeral)
  ultimately have "exp (1109 / 1600 :: real) < exp (ln 2)" using e by simp
  then show ?thesis by (simp only: exp_less_cancel_iff)
qed

lemma exp_le_inverse_one_minus:
  assumes "(x::real) < 1"
  shows "exp x \<le> 1 / (1 - x)"
proof -
  have "1 + (- x) \<le> exp (- x)" by (rule exp_ge_add_one_self)
  then have "1 - x \<le> 1 / exp x" by (simp add: exp_minus inverse_eq_divide)
  moreover have "0 < 1 - x" using assms by simp
  ultimately have "exp x * (1 - x) \<le> 1"
    by (simp add: pos_le_divide_eq mult.commute)
  then show ?thesis using \<open>0 < 1 - x\<close> by (simp add: pos_le_divide_eq)
qed

lemma ratio_pow_ge_exp: "exp (real i / 744) \<le> (744 / 743 :: real) ^ i"
proof -
  have "exp (1 / 744 :: real) \<le> 1 / (1 - 1 / 744)"
    by (rule exp_le_inverse_one_minus) simp
  then have "exp (1 / 744 :: real) \<le> 744 / 743" by simp
  then have "exp (1 / 744 :: real) ^ i \<le> (744 / 743) ^ i"
    by (intro power_mono) simp_all
  moreover have "exp (1 / 744 :: real) ^ i = exp (real i / 744)"
    using exp_of_nat_mult [of i "1 / 744 :: real"] by simp
  ultimately show ?thesis by simp
qed

lemma ratio_pow_ge_2:
  assumes "520 \<le> i"
  shows "(2::real) \<le> (744 / 743) ^ i"
proof -
  have "ln (2::real) < 13863 / 20000" by (rule ln2_upper)
  also have "\<dots> \<le> 520 / 744" by simp
  also have "\<dots> \<le> real i / 744" using assms by simp
  finally have "ln 2 \<le> real i / 744" by simp
  then have "exp (ln 2) \<le> exp (real i / 744)" by (simp only: exp_le_cancel_iff)
  then have "2 \<le> exp (real i / 744)" by simp
  with ratio_pow_ge_exp [of i] show ?thesis by linarith
qed

lemma ratio_pow_k:
  assumes "k = 700"
  shows "(2 + 3 / 8 :: real) \<le> (744 / 743) ^ k"
proof -
  have "(2 + 3 / 8 :: real) \<le> 1 + 700 / 744 + (700 / 744)\<^sup>2 / 2"
    by (simp add: power2_eq_square)
  also have "\<dots> \<le> exp (700 / 744)"
    by (rule exp_lower_Taylor_quadratic) simp
  also have "\<dots> = exp (real k / 744)" using assms by simp
  also have "\<dots> \<le> (744 / 743) ^ k"
    by (rule ratio_pow_ge_exp)
  finally show ?thesis .
qed

text \<open>The terms \<open>x\<^sup>i / i!\<close> grow while \<open>i \<le> x\<close>.\<close>

lemma term_step:
  "(x::real) ^ Suc i / fact (Suc i) = x ^ i / fact i * (x / real (Suc i))"
  by (simp add: field_simps del: of_nat_Suc)

lemma term_mono:
  fixes x :: real
  assumes "0 \<le> x" "i \<le> j" "real j \<le> x"
  shows "x ^ i / fact i \<le> x ^ j / fact j"
  using assms(2,3)
proof (induction j)
  case 0
  then show ?case by simp
next
  case (Suc j)
  show ?case
  proof (cases "i = Suc j")
    case True
    then show ?thesis by simp
  next
    case False
    with Suc.prems have ij: "i \<le> j" "real j \<le> x" by simp_all
    have "1 \<le> x / real (Suc j)" using Suc.prems by (simp add: pos_le_divide_eq)
    then have "x ^ j / fact j * 1 \<le> x ^ j / fact j * (x / real (Suc j))"
      using assms(1) by (intro mult_left_mono) simp_all
    with Suc.IH [OF ij] show ?thesis by (simp only: term_step)
  qed
qed

lemma term_growth:
  fixes x K :: real
  assumes "0 \<le> x" "0 < K" "real (m + n) \<le> K"
  shows "x ^ m / fact m * (x / K) ^ n \<le> x ^ (m + n) / fact (m + n)"
  using assms(3)
proof (induction n)
  case 0
  show ?case by simp
next
  case (Suc n)
  then have n: "real (m + n) \<le> K" by simp
  have "x / K \<le> x / real (Suc (m + n))"
    using Suc.prems assms(1,2) by (intro divide_left_mono) simp_all
  then have "x ^ (m + n) / fact (m + n) * (x / K)
        \<le> x ^ (m + n) / fact (m + n) * (x / real (Suc (m + n)))"
    using assms(1) by (intro mult_left_mono) simp_all
  moreover have "x ^ m / fact m * (x / K) ^ n * (x / K)
        \<le> x ^ (m + n) / fact (m + n) * (x / K)"
    using Suc.IH [OF n] assms(1,2) by (intro mult_right_mono) simp_all
  ultimately have "x ^ m / fact m * (x / K) ^ n * (x / K)
        \<le> x ^ Suc (m + n) / fact (Suc (m + n))"
    by (simp only: term_step)
  then show ?case by (simp only: power_Suc2 add_Suc_right mult.assoc)
qed

lemma growth_factor:
  assumes "n = 181"
  shows "(23841 :: real) \<le> (743 / 700) ^ n"
proof -
  have "(5 / 2 :: real) \<le> (743 / 700) ^ 16"
    by (simp add: power_divide)
  then have "(5 / 2 :: real) ^ 11 \<le> ((743 / 700) ^ 16) ^ 11"
    by (intro power_mono) simp_all
  also have "\<dots> = (743 / 700 :: real) ^ (16 * 11)"
    by (rule power_mult [symmetric])
  also have "\<dots> \<le> (743 / 700 :: real) ^ n"
    using assms by (intro power_increasing) simp_all
  finally have "(5 / 2 :: real) ^ 11 \<le> (743 / 700) ^ n" .
  moreover have "(23841 :: real) \<le> (5 / 2) ^ 11" by (simp add: power_divide)
  ultimately show ?thesis by linarith
qed

text \<open>
  A weighted sum: if the weights \<open>r\<^sup>i\<close> are at least 2 from \<open>m\<close> on and the last term
  outweighs the first \<open>m\<close> terms, the weighted sum is more than twice the sum.
\<close>

lemma weighted_sum_bound:
  fixes a :: "nat \<Rightarrow> real" and r b c :: real
  assumes pos: "\<And>i. 0 \<le> a i"
    and r1: "1 \<le> r"
    and r2: "\<And>i. m \<le> i \<Longrightarrow> 2 \<le> r ^ i"
    and rk: "2 + c \<le> r ^ k"
    and small: "\<And>i. i < m \<Longrightarrow> a i \<le> b"
    and big: "2 * real m * b < c * a k"
    and mk: "m \<le> k"
  shows "2 * (\<Sum>i \<le> k. a i) < (\<Sum>i \<le> k. a i * r ^ i)"
proof -
  have split: "{..k} = {..<m} \<union> {m..<k} \<union> {k}"
    using mk by auto
  have sum_split: "(\<Sum>i \<le> k. f i) = (\<Sum>i<m. f i) + (\<Sum>i = m..<k. f i) + f k"
    for f :: "nat \<Rightarrow> real"
  proof -
    have "(\<Sum>i \<in> {..<m} \<union> {m..<k} \<union> {k}. f i)
            = (\<Sum>i \<in> {..<m} \<union> {m..<k}. f i) + (\<Sum>i \<in> {k}. f i)"
      using mk by (intro sum.union_disjoint) auto
    then have "(\<Sum>i \<le> k. f i) = (\<Sum>i \<in> {..<m} \<union> {m..<k}. f i) + f k"
      unfolding split by simp
    also have "(\<Sum>i \<in> {..<m} \<union> {m..<k}. f i) = (\<Sum>i<m. f i) + (\<Sum>i = m..<k. f i)"
      by (rule sum.union_disjoint) auto
    finally show ?thesis .
  qed
  have low: "(\<Sum>i<m. a i * (r ^ i - 2)) \<ge> - (2 * real m * b)"
  proof -
    have "(\<Sum>i<m. - (2 * b)) \<le> (\<Sum>i<m. a i * (r ^ i - 2))"
    proof (rule sum_mono)
      fix i assume "i \<in> {..<m}"
      then have i: "i < m" by simp
      have "0 \<le> r ^ i" using r1 by simp
      then have "a i * 0 \<le> a i * r ^ i" using pos by (intro mult_left_mono)
      then have "- (2 * a i) \<le> a i * (r ^ i - 2)" by (simp add: algebra_simps)
      moreover have "- (2 * b) \<le> - (2 * a i)" using small [OF i] by simp
      ultimately show "- (2 * b) \<le> a i * (r ^ i - 2)" by linarith
    qed
    then show ?thesis by (simp add: mult.assoc)
  qed
  have mid: "0 \<le> (\<Sum>i = m..<k. a i * (r ^ i - 2))"
  proof (rule sum_nonneg)
    fix i assume "i \<in> {m..<k}"
    then have "2 \<le> r ^ i" using r2 by simp
    with pos show "0 \<le> a i * (r ^ i - 2)" by simp
  qed
  have top: "c * a k \<le> a k * (r ^ k - 2)"
  proof -
    have "c \<le> r ^ k - 2" using rk by simp
    then have "a k * c \<le> a k * (r ^ k - 2)" using pos by (intro mult_left_mono)
    then show ?thesis by (simp add: mult.commute)
  qed
  have "(\<Sum>i \<le> k. a i * r ^ i) - 2 * (\<Sum>i \<le> k. a i) = (\<Sum>i \<le> k. a i * (r ^ i - 2))"
    by (simp add: sum_subtractf sum_distrib_left algebra_simps)
  also have "\<dots> = (\<Sum>i<m. a i * (r ^ i - 2)) + (\<Sum>i = m..<k. a i * (r ^ i - 2))
                    + a k * (r ^ k - 2)"
    by (rule sum_split)
  finally show ?thesis using low mid top big by linarith
qed

subsection \<open>\<^verbatim>\<open>math.exp\<close> at \<open>-743\<close> and \<open>-744\<close>\<close>

lemma py_round_nearest_int:
  assumes "of_int n - 1 / 2 < y" "y < of_int n + 1 / 2"
  shows "py_round y = n"
proof (cases "of_int n \<le> y")
  case True
  with assms have "\<lfloor>y\<rfloor> = n" by (intro floor_unique) simp_all
  with assms show ?thesis by (simp add: py_round_def Let_def)
next
  case False
  with assms have "\<lfloor>y\<rfloor> = n - 1" by (intro floor_unique) simp_all
  with assms False show ?thesis by (simp add: py_round_def Let_def)
qed

lemma two_power_exp: "(2::real) ^ n = exp (real n * ln 2)"
  using exp_of_nat_mult [of n "ln (2::real)"] by simp

lemma exp_quantum:
  "exp (- x :: real) * 2 ^ 1074 = exp (1074 * ln 2 - x)"
proof -
  have "exp (1074 * ln 2 - x) = exp (real 1074 * ln 2) / exp x"
    by (simp add: exp_diff)
  also have "\<dots> = 2 ^ 1074 / exp x"
    by (simp only: two_power_exp [symmetric])
  also have "\<dots> = exp (- x) * 2 ^ 1074"
    by (simp only: exp_minus divide_inverse mult.commute)
  finally show ?thesis by (rule sym)
qed

lemma exp_quantum_743:
  "4 < exp (- 743 :: real) * 2 ^ 1074" "exp (- 743 :: real) * 2 ^ 1074 < 9 / 2"
proof -
  have lo: "1109 / 1600 < ln (2::real)" by (rule ln2_lower)
  have hi: "ln (2::real) < 13863 / 20000" by (rule ln2_upper)
  have "(4::real) = 2 ^ 2" by simp
  also have "\<dots> = exp (real 2 * ln 2)" by (rule two_power_exp)
  also have "\<dots> < exp (1074 * ln 2 - 743)"
    using lo by (simp only: exp_less_cancel_iff)
  finally show "4 < exp (- 743 :: real) * 2 ^ 1074"
    by (simp only: exp_quantum)
  have "exp (29 / 640 :: real) \<le> 1 / (1 - 29 / 640)"
    by (rule exp_le_inverse_one_minus) simp
  then have "exp (29 / 640 :: real) \<le> 640 / 611" by simp
  then have "exp (29 / 640 :: real) ^ 32 \<le> (640 / 611) ^ 32"
    by (intro power_mono) simp_all
  moreover have "exp (29 / 640 :: real) ^ 32 = exp (29 / 20)"
    using exp_of_nat_mult [of 32 "29 / 640 :: real"] by simp
  moreover have "(640 / 611 :: real) ^ 32 < 9 / 2"
    by (simp add: power_divide)
  ultimately have e: "exp (29 / 20 :: real) < 9 / 2" by linarith
  have "1074 * ln (2::real) - 743 < 29 / 20" using hi by simp
  then have "exp (1074 * ln (2::real) - 743) < exp (29 / 20)"
    by (simp only: exp_less_cancel_iff)
  with e have "exp (1074 * ln (2::real) - 743) < 9 / 2" by linarith
  then show "exp (- 743 :: real) * 2 ^ 1074 < 9 / 2"
    by (simp only: exp_quantum)
qed

lemma exp_quantum_744:
  "3 / 2 < exp (- 744 :: real) * 2 ^ 1074" "exp (- 744 :: real) * 2 ^ 1074 < 5 / 2"
proof -
  have lo: "1109 / 1600 < ln (2::real)" by (rule ln2_lower)
  have hi: "ln (2::real) < 13863 / 20000" by (rule ln2_upper)
  have "(3 / 2 :: real) < (\<Sum>i \<le> 3. (41 / 100) ^ i / fact i)"
    by (simp add: eval_nat_numeral)
  also have "\<dots> \<le> exp (41 / 100)"
    by (rule exp_partial_sum_le) simp
  also have "\<dots> < exp (1074 * ln 2 - 744)"
    using lo by (simp only: exp_less_cancel_iff)
  finally show "3 / 2 < exp (- 744 :: real) * 2 ^ 1074"
    by (simp only: exp_quantum)
  have "exp (1 / 2 :: real) \<le> 1 / (1 - 1 / 2)"
    by (rule exp_le_inverse_one_minus) simp
  then have e: "exp (1 / 2 :: real) < 5 / 2" by simp
  have "1074 * ln (2::real) - 744 < 1 / 2" using hi by simp
  then have "exp (1074 * ln (2::real) - 744) < exp (1 / 2)"
    by (simp only: exp_less_cancel_iff)
  with e have "exp (1074 * ln (2::real) - 744) < 5 / 2" by linarith
  then show "exp (- 744 :: real) * 2 ^ 1074 < 5 / 2"
    by (simp only: exp_quantum)
qed

lemma math_exp_subnormal:
  assumes "of_int n - 1 / 2 < exp x * 2 ^ 1074" "exp x * 2 ^ 1074 < of_int n + 1 / 2"
    and "n \<le> 8"
  shows "math_exp x = of_int n / 2 ^ 1074"
proof -
  have r: "py_round (exp x * 2 ^ 1074) = n"
    by (rule py_round_nearest_int [OF assms(1,2)])
  have "exp x * 2 ^ 1074 < 9" using assms(2,3) by simp
  also have "\<dots> \<le> (1 * 2 ^ 52 :: real)" by simp
  finally have "exp x < 2 ^ 52 / 2 ^ 1074" by (simp only: pos_less_divide_eq zero_less_power zero_less_numeral mult_1)
  also have "\<dots> = (1::real) / 2 ^ 1022" by simp
  finally have lt: "exp x < 1 / 2 ^ 1022" .
  show ?thesis
    unfolding math_exp_def Let_def by (simp only: lt r if_True)
qed

lemma math_exp_743: "math_exp (- 743) = 4 / 2 ^ 1074"
  using math_exp_subnormal [of 4 "- 743"] exp_quantum_743 by simp

lemma math_exp_744: "math_exp (- 744) = 2 / 2 ^ 1074"
  using math_exp_subnormal [of 2 "- 744"] exp_quantum_744 by simp

subsection \<open>The reference sum is monotone\<close>

text \<open>
  The derivative of the reference sum in \<open>\<lambda>\<close> is \<open>- e\<^sup>-\<^sup>\<lambda> \<lambda>\<^sup>k / k!\<close>, which is not
  positive for \<open>\<lambda> \<ge> 0\<close>: the reference distribution function does not increase
  with \<open>\<lambda>\<close>, and the reference overload probability \<open>1 - poisson_cdf_ref C \<lambda>\<close> does
  not decrease.
\<close>

lemma poisson_partial_sum_deriv:
  "((\<lambda>x::real. \<Sum>i \<le> k. exp (- x) * x ^ i / fact i) has_real_derivative
      - (exp (- x) * x ^ k / fact k)) (at x)"
proof (induction k)
  case 0
  show ?case by (auto intro!: derivative_eq_intros)
next
  case (Suc k)
  have t: "((\<lambda>x::real. exp (- x) * x ^ Suc k / fact (Suc k)) has_real_derivative
             exp (- x) * x ^ k / fact k - exp (- x) * x ^ Suc k / fact (Suc k)) (at x)"
  proof -
    have p: "((\<lambda>x::real. x ^ Suc k) has_real_derivative real (Suc k) * x ^ k) (at x)"
      using DERIV_pow [of "Suc k" x] by simp
    have e: "((\<lambda>x::real. exp (- x)) has_real_derivative - exp (- x)) (at x)"
      by (auto intro!: derivative_eq_intros)
    have "((\<lambda>x::real. exp (- x) * x ^ Suc k / fact (Suc k)) has_real_derivative
            (- exp (- x) * x ^ Suc k + real (Suc k) * x ^ k * exp (- x)) / fact (Suc k)) (at x)"
      by (rule DERIV_cdivide [OF DERIV_mult [OF e p]])
    moreover have "(- exp (- x) * x ^ Suc k + real (Suc k) * x ^ k * exp (- x)) / fact (Suc k)
        = exp (- x) * x ^ k / fact k - exp (- x) * x ^ Suc k / fact (Suc k)"
    proof -
      have "real (Suc k) * x ^ k * exp (- x) / fact (Suc k) = exp (- x) * x ^ k / fact k"
        by (simp add: field_simps del: of_nat_Suc)
      then show ?thesis
        by (simp add: diff_divide_distrib del: of_nat_Suc fact_Suc power_Suc)
    qed
    ultimately show ?thesis by simp
  qed
  have "((\<lambda>x::real. (\<Sum>i \<le> k. exp (- x) * x ^ i / fact i)
                     + exp (- x) * x ^ Suc k / fact (Suc k)) has_real_derivative
          - (exp (- x) * x ^ k / fact k)
          + (exp (- x) * x ^ k / fact k - exp (- x) * x ^ Suc k / fact (Suc k))) (at x)"
    by (rule DERIV_add [OF Suc.IH t])
  then show ?case by simp
qed

lemma poisson_sum_antimono:
  assumes "0 \<le> l1" "l1 \<le> l2"
  shows "poisson_sum k l2 \<le> poisson_sum k l1"
proof (cases "0 \<le> k")
  case True
  have "(\<Sum>i \<le> nat k. exp (- l2) * l2 ^ i / fact i)
      \<le> (\<Sum>i \<le> nat k. exp (- l1) * l1 ^ i / fact i)"
  proof (rule DERIV_nonpos_imp_nonincreasing [OF assms(2)])
    fix x :: real
    assume "l1 \<le> x" "x \<le> l2"
    with assms have "0 \<le> x" by simp
    then have "- (exp (- x) * x ^ nat k / fact (nat k)) \<le> 0" by simp
    then show "\<exists>y. ((\<lambda>x. \<Sum>i \<le> nat k. exp (- x) * x ^ i / fact i) has_real_derivative y) (at x) \<and> y \<le> 0"
      using poisson_partial_sum_deriv by blast
  qed
  then show ?thesis by (simp add: poisson_sum_nonneg_k [OF True])
next
  case False
  then show ?thesis by (simp add: poisson_sum_neg_k)
qed

lemma poisson_cdf_ref_antimono:
  "0 \<le> l1 \<Longrightarrow> l1 \<le> l2 \<Longrightarrow> poisson_cdf_ref k l2 \<le> poisson_cdf_ref k l1"
  using poisson_sum_antimono [of l1 l2 k] by (simp add: poisson_cdf_ref_eq)

subsection \<open>The overload probability at \<open>C = 700\<close>, from \<open>lam = 743\<close> to \<open>lam = 744\<close>\<close>

lemma term_ratio:
  fixes x y :: real
  assumes "x \<noteq> 0"
  shows "y ^ i / fact i = x ^ i / fact i * (y / x) ^ i"
  using assms by (simp add: power_divide)

lemma exp_poly_743_744:
  "2 * (\<Sum>i \<le> 700. (743::real) ^ i / fact i) < (\<Sum>i \<le> 700. (744::real) ^ i / fact i)"
proof -
  define p :: real where "p = 743 ^ 519 / fact 519"
  define q :: real where "q = 743 ^ 700 / fact 700"
  define g :: real where "g = (743 / 700) ^ 181"
  have e: "(519::nat) + 181 = 700" by simp
  have "(743::real) ^ 519 / fact 519 * (743 / 700) ^ 181 \<le> 743 ^ (519 + 181) / fact (519 + 181)"
    by (rule term_growth) simp_all
  then have "p * g \<le> q"
    unfolding p_def q_def g_def e .
  moreover have "23841 \<le> g"
    unfolding g_def by (rule growth_factor) simp
  moreover have p: "0 < p"
    unfolding p_def by (rule divide_pos_pos [OF zero_less_power fact_gt_zero]) simp
  ultimately have big: "2 * real 520 * p < 3 / 8 * q"
  proof -
    assume a: "p * g \<le> q" "23841 \<le> g"
    from a(2) p have "p * 23841 \<le> p * g" by (intro mult_left_mono) simp_all
    with a(1) p have "1040 * p < 3 / 8 * q" by linarith
    then show ?thesis by simp
  qed
  have small: "(743::real) ^ i / fact i \<le> p" if "i < 520" for i
    unfolding p_def using that by (intro term_mono) simp_all
  have "2 * (\<Sum>i \<le> 700. (743::real) ^ i / fact i)
      < (\<Sum>i \<le> 700. (743::real) ^ i / fact i * (744 / 743) ^ i)"
  proof (rule weighted_sum_bound [where m = 520 and c = "3 / 8" and b = p])
    show "0 \<le> (743::real) ^ i / fact i" for i by simp
    show "(1::real) \<le> 744 / 743" by simp
    show "(2::real) \<le> (744 / 743) ^ i" if "520 \<le> i" for i
      using that by (rule ratio_pow_ge_2)
    show "(2 + 3 / 8 :: real) \<le> (744 / 743) ^ 700"
      by (rule ratio_pow_k) simp
    show "(743::real) ^ i / fact i \<le> p" if "i < 520" for i
      using that by (rule small)
    show "2 * real 520 * p < 3 / 8 * (743 ^ 700 / fact 700)"
      using big unfolding q_def .
    show "(520::nat) \<le> 700" by simp
  qed
  also have "\<dots> = (\<Sum>i \<le> 700. (744::real) ^ i / fact i)"
    by (rule sum.cong [OF refl], rule term_ratio [symmetric]) simp
  finally show ?thesis .
qed

lemma poisson_cdf_clamped:
  "0 \<le> lam \<Longrightarrow> 0 \<le> k \<Longrightarrow>
     poisson_cdf (PyInt k) lam = Inr (clamp01 (snd (cdf_loop (nat k) lam)))"
  by (simp add: poisson_cdf_def clamp01_def Let_def)

lemma cdf_total_factored:
  "snd (cdf_loop k lam) = math_exp (- lam) * (\<Sum>i \<le> k. lam ^ i / fact i)"
  by (simp add: cdf_loop_closed sum_distrib_left)

text \<open>
  C4 says that the overload probability is non-decreasing in \<open>lam\<close>. At \<open>C = 700\<close>
  the code's value decreases from \<open>lam = 743\<close> to \<open>lam = 744\<close>: \<^verbatim>\<open>math.exp\<close> returns 4
  units of \<open>2\<^sup>-\<^sup>1\<^sup>0\<^sup>7\<^sup>4\<close> at \<open>-743\<close>, where \<open>e\<^sup>-\<^sup>7\<^sup>4\<^sup>3\<close> is about 4.22 units, and 2 units at
  \<open>-744\<close>, where \<open>e\<^sup>-\<^sup>7\<^sup>4\<^sup>4\<close> is about 1.55 units, so the computed distribution function
  is too small at 743 and too large at 744.
\<close>

theorem overload_decreases_at_700:
  "\<exists>p1 p2. poisson_overload_prob 743 (PyInt 700) = Inr p1 \<and>
           poisson_overload_prob 744 (PyInt 700) = Inr p2 \<and> p2 < p1"
proof -
  define u :: real where "u = 1 / 2 ^ 1074"
  define S1 :: real where "S1 = (\<Sum>i \<le> 700. 743 ^ i / fact i)"
  define S2 :: real where "S2 = (\<Sum>i \<le> 700. 744 ^ i / fact i)"
  define t1 :: real where "t1 = snd (cdf_loop 700 743)"
  define t2 :: real where "t2 = snd (cdf_loop 700 744)"
  have u: "0 < u" unfolding u_def by simp
  have S: "2 * S1 < S2" unfolding S1_def S2_def by (rule exp_poly_743_744)
  have S1: "0 < S1" "S1 \<le> exp 743"
  proof -
    show "0 < S1" unfolding S1_def by (intro sum_pos) simp_all
    show "S1 \<le> exp 743" unfolding S1_def by (rule exp_partial_sum_le) simp
  qed
  have t1: "t1 = 4 * u * S1"
    unfolding t1_def S1_def u_def cdf_total_factored math_exp_743 by simp
  have t2: "t2 = 2 * u * S2"
    unfolding t2_def S2_def u_def cdf_total_factored math_exp_744 by simp
  have "4 * u < exp (- 743)"
    using exp_quantum_743(1) unfolding u_def by (simp add: field_simps)
  then have "4 * u * S1 < exp (- 743) * S1"
    using S1(1) by (intro mult_strict_right_mono)
  also have "\<dots> \<le> exp (- 743) * exp 743"
    using S1(2) by (intro mult_left_mono) simp_all
  also have "\<dots> = 1" by (simp add: exp_minus)
  finally have lt1: "t1 < 1" by (simp only: t1)
  have ge0: "0 \<le> t1" using u S1(1) by (simp add: t1)
  have "u * (2 * S1) < u * S2" using S u by (intro mult_strict_left_mono)
  moreover have "4 * u * S1 = 2 * (u * (2 * S1))" "2 * u * S2 = 2 * (u * S2)" by simp_all
  ultimately have lt: "t1 < t2" unfolding t1 t2 by linarith
  have c: "clamp01 t1 < clamp01 t2"
    using lt1 ge0 lt by (simp add: clamp01_def)
  have "poisson_cdf (PyInt 700) 743 = Inr (clamp01 t1)"
    using poisson_cdf_clamped [of 743 700] by (simp add: t1_def)
  moreover have "poisson_cdf (PyInt 700) 744 = Inr (clamp01 t2)"
    using poisson_cdf_clamped [of 744 700] by (simp add: t2_def)
  ultimately show ?thesis
    using c by (simp add: poisson_overload_prob_def)
qed

end
